theory Spec2Isabelle
  imports Complex_Main
begin

section \<open>Index space\<close>

text \<open>
  The C++ file works on AMReX boxes: axis-aligned rectangles of integer cells.  A box is
  kept here as one \<open>(smallEnd, bigEnd)\<close> pair per axis; the number of axes
  (\<open>AMREX_SPACEDIM\<close>, 2 or 3 in the build) is the length of the list.  C++ \<open>int\<close> is
  modelled by \<open>int\<close>: index arithmetic is assumed not to overflow.
\<close>

type_synonym IntVect = "int list"
type_synonym Box = "(int \<times> int) list"

definition smallEnd :: "Box \<Rightarrow> nat \<Rightarrow> int" where
  "smallEnd b idim = fst (b ! idim)"

definition bigEnd :: "Box \<Rightarrow> nat \<Rightarrow> int" where
  "bigEnd b idim = snd (b ! idim)"

text \<open>
  The operations of AMReX on boxes that the file calls.  \<open>ok\<close> is \<open>Box::ok\<close>, \<open>isect\<close>
  is \<open>operator&\<close>, \<open>intersects\<close> and \<open>contains\<close> are the member functions of these
  names, \<open>size_box\<close> is \<open>Box::size\<close> and \<open>length_box\<close> is \<open>Box::length\<close>.  All boxes
  of a C++ build have the same number of axes; the intersection of two boxes with different
  numbers of axes is the invalid box here.
\<close>

definition ok :: "Box \<Rightarrow> bool" where
  "ok b \<longleftrightarrow> list_all (\<lambda>(l, h). l \<le> h) b"

definition isect :: "Box \<Rightarrow> Box \<Rightarrow> Box" where
  "isect a b =
     (if length a = length b
      then map2 (\<lambda>(la, ha) (lb, hb). (max la lb, min ha hb)) a b
      else [(1, 0)])"

definition intersects :: "Box \<Rightarrow> Box \<Rightarrow> bool" where
  "intersects a b = ok (isect a b)"

definition contains :: "Box \<Rightarrow> Box \<Rightarrow> bool" where
  "contains a b \<longleftrightarrow> list_all2 (\<lambda>(la, ha) (lb, hb). la \<le> lb \<and> hb \<le> ha) a b"

definition setSmall :: "Box \<Rightarrow> nat \<Rightarrow> int \<Rightarrow> Box" where
  "setSmall b idim v = b[idim := (v, snd (b ! idim))]"

definition setBig :: "Box \<Rightarrow> nat \<Rightarrow> int \<Rightarrow> Box" where
  "setBig b idim v = b[idim := (fst (b ! idim), v)]"

definition grow :: "Box \<Rightarrow> int \<Rightarrow> Box" where
  "grow b n = map (\<lambda>(l, h). (l - n, h + n)) b"

definition growLo :: "Box \<Rightarrow> nat \<Rightarrow> int \<Rightarrow> Box" where
  "growLo b idim n = setSmall b idim (smallEnd b idim - n)"

definition growHi :: "Box \<Rightarrow> nat \<Rightarrow> int \<Rightarrow> Box" where
  "growHi b idim n = setBig b idim (bigEnd b idim + n)"

definition shift :: "Box \<Rightarrow> IntVect \<Rightarrow> Box" where
  "shift b iv = map2 (\<lambda>(l, h) s. (l + s, h + s)) b iv"

definition size_box :: "Box \<Rightarrow> IntVect" where
  "size_box b = map (\<lambda>(l, h). h - l + 1) b"

definition length_box :: "Box \<Rightarrow> nat \<Rightarrow> int" where
  "length_box b idim = bigEnd b idim - smallEnd b idim + 1"

text \<open>The default-constructed \<open>Box()\<close>: \<open>smallEnd = 1\<close>, \<open>bigEnd = 0\<close> on every axis.\<close>

definition EmptyBox :: "nat \<Rightarrow> Box" where
  "EmptyBox d = replicate d (1, 0)"

section \<open>Block sets\<close>

text \<open>
  \<open>amrex::boxDiff(b1in, b2)\<close>: the boxes that make up \<open>b1in\<close> without \<open>b2\<close>.  The
  library's loop runs over the axes from the last to the first, cuts the part of \<open>b1\<close>
  below \<open>b2\<close> and the part above it off \<open>b1\<close> and keeps them; \<open>boxDiff_loop i\<close> is the
  loop with the axes below \<open>i\<close> still to do.
\<close>

fun boxDiff_loop :: "nat \<Rightarrow> Box \<Rightarrow> Box \<Rightarrow> Box list" where
  "boxDiff_loop 0 b1 b2 = []"
| "boxDiff_loop (Suc i) b1 b2 =
     (let lo_cut = smallEnd b1 i < smallEnd b2 i \<and> smallEnd b2 i \<le> bigEnd b1 i;
          below = (if lo_cut then [setBig (setSmall b1 i (smallEnd b1 i)) i (smallEnd b2 i - 1)] else []);
          b1' = (if lo_cut then setSmall b1 i (smallEnd b2 i) else b1);
          hi_cut = smallEnd b1' i \<le> bigEnd b2 i \<and> bigEnd b2 i < bigEnd b1' i;
          above = (if hi_cut then [setBig (setSmall b1' i (bigEnd b2 i + 1)) i (bigEnd b1' i)] else []);
          b1'' = (if hi_cut then setBig b1' i (bigEnd b2 i) else b1')
      in below @ above @ boxDiff_loop i b1'' b2)"

definition boxDiff :: "Box \<Rightarrow> Box \<Rightarrow> Box list" where
  "boxDiff b1in b2 =
     (if contains b2 b1in then []
      else if \<not> intersects b1in b2 then [b1in]
      else boxDiff_loop (length b1in) b1in b2)"

text \<open>
  \<open>BoxArray::complementIn(bx)\<close>: the part of \<open>bx\<close> that no box of the array covers.  The
  library takes the boxes of the array that meet \<open>bx\<close> one after the other (in the order
  of its hash; in the order of the array here) and takes each out of every box of the list.
\<close>

definition complementIn_step :: "Box \<Rightarrow> Box list \<Rightarrow> Box \<Rightarrow> Box list" where
  "complementIn_step bx bl g =
     (let is = isect bx g in if ok is then concat (map (\<lambda>b. boxDiff b is) bl) else bl)"

definition complementIn :: "Box list \<Rightarrow> Box \<Rightarrow> Box list" where
  "complementIn ba bx = foldl (complementIn_step bx) [bx] ba"

text \<open>
  \<open>BoxArray::intersections(bx)\<close>: the indices of the boxes that meet \<open>bx\<close>, each with the
  intersection.
\<close>

definition intersections :: "Box list \<Rightarrow> Box \<Rightarrow> (nat \<times> Box) list" where
  "intersections ba bx =
     filter (\<lambda>(j, is). ok is) (map (\<lambda>j. (j, isect (ba ! j) bx)) [0..<length ba])"

text \<open>
  \<open>BoxArray::removeOverlap\<close>.  For every valid box \<open>i\<close> of the array, in the order of the
  array, every other box \<open>j\<close> that meets it is replaced by the empty box, and the boxes of
  \<open>boxDiff\<close> of box \<open>j\<close> and the intersection are appended to the array (\<open>cut\<close>); the
  appended boxes are visited later by the same loop.  At the end the empty boxes are removed.
  \<open>vol\<close> is the number of cells of a box and \<open>potential\<close> the measure the loop ends by.
\<close>

definition cut :: "nat \<Rightarrow> Box list \<Rightarrow> nat \<times> Box \<Rightarrow> Box list" where
  "cut i bxs p =
     (case p of (j, is) \<Rightarrow>
        if j = i then bxs
        else bxs[j := EmptyBox (length (bxs ! j))] @ boxDiff (bxs ! j) is)"

definition removeOverlap_step :: "nat \<Rightarrow> Box list \<Rightarrow> Box list" where
  "removeOverlap_step i bxs = foldl (cut i) bxs (intersections bxs (bxs ! i))"

definition vol :: "Box \<Rightarrow> nat" where
  "vol b = prod_list (map (\<lambda>(l, h). nat (h - l + 1)) b)"

definition weight :: "Box \<Rightarrow> nat" where
  "weight b = (2 * length b + 1) * vol b"

definition potential :: "Box list \<Rightarrow> nat" where
  "potential bxs = sum_list (map weight bxs) + length bxs"

section \<open>Facts about boxes; the loop of \<open>removeOverlap\<close> ends\<close>

lemma ok_pos: "ok b \<Longrightarrow> 0 < vol b"
  by (induction b) (auto simp: ok_def vol_def)

lemma length_EmptyBox [simp]: "length (EmptyBox d) = d"
  by (simp add: EmptyBox_def)

lemma vol_EmptyBox: "vol (EmptyBox d) = (if d = 0 then 1 else 0)"
  by (induction d) (auto simp: EmptyBox_def vol_def)

lemma weight_EmptyBox: "weight (EmptyBox d) \<le> 1"
  by (simp add: weight_def vol_EmptyBox)

lemma vol_update:
  assumes "i < length b"
  shows "vol (b[i := (l, h)]) = prod_list (map (\<lambda>(l, h). nat (h - l + 1)) (take i b))
           * nat (h - l + 1) * prod_list (map (\<lambda>(l, h). nat (h - l + 1)) (drop (Suc i) b))"
  using assms by (simp add: vol_def upd_conv_take_nth_drop)

lemma vol_split:
  assumes "i < length b" "l \<le> m" "m \<le> h + 1"
  shows "vol (b[i := (l, m - 1)]) + vol (b[i := (m, h)]) = vol (b[i := (l, h)])"
proof -
  let ?A = "prod_list (map (\<lambda>(l, h). nat (h - l + 1)) (take i b))"
  let ?C = "prod_list (map (\<lambda>(l, h). nat (h - l + 1)) (drop (Suc i) b))"
  have e: "nat (h - l + 1) = nat (m - 1 - l + 1) + nat (h - m + 1)" using assms by simp
  have "?A * nat (m - 1 - l + 1) * ?C + ?A * nat (h - m + 1) * ?C
      = ?A * (nat (m - 1 - l + 1) + nat (h - m + 1)) * ?C"
    by (simp only: distrib_left distrib_right)
  then show ?thesis
    by (simp only: vol_update[OF assms(1)] e)
qed

lemma ok_update:
  assumes "ok b" "l \<le> h"
  shows "ok (b[i := (l, h)])"
proof -
  have "set (b[i := (l, h)]) \<subseteq> insert (l, h) (set b)"
    by (rule set_update_subset_insert)
  with assms show ?thesis
    unfolding ok_def list_all_iff by blast
qed

lemma ok_nth: "ok b \<Longrightarrow> i < length b \<Longrightarrow> fst (b ! i) \<le> snd (b ! i)"
  unfolding ok_def list_all_length by (cases "b ! i") auto


lemma ends_update [simp]:
  "i < length b \<Longrightarrow> smallEnd (b[i := (l, h)]) i = l"
  "i < length b \<Longrightarrow> bigEnd (b[i := (l, h)]) i = h"
  by (simp_all add: smallEnd_def bigEnd_def)

lemma update_ends [simp]: "b[i := (smallEnd b i, bigEnd b i)] = b"
  by (simp add: smallEnd_def bigEnd_def)

lemma boxDiff_loop_Suc:
  assumes "i < length b1"
  shows "boxDiff_loop (Suc i) b1 b2 =
     (if smallEnd b1 i < smallEnd b2 i \<and> smallEnd b2 i \<le> bigEnd b1 i
      then b1[i := (smallEnd b1 i, smallEnd b2 i - 1)] #
        (if smallEnd b2 i \<le> bigEnd b2 i \<and> bigEnd b2 i < bigEnd b1 i
         then b1[i := (bigEnd b2 i + 1, bigEnd b1 i)] #
              boxDiff_loop i (b1[i := (smallEnd b2 i, bigEnd b2 i)]) b2
         else boxDiff_loop i (b1[i := (smallEnd b2 i, bigEnd b1 i)]) b2)
      else
        (if smallEnd b1 i \<le> bigEnd b2 i \<and> bigEnd b2 i < bigEnd b1 i
         then b1[i := (bigEnd b2 i + 1, bigEnd b1 i)] #
              boxDiff_loop i (b1[i := (smallEnd b1 i, bigEnd b2 i)]) b2
         else boxDiff_loop i b1 b2))"
  using assms by (simp add: Let_def setSmall_def setBig_def smallEnd_def bigEnd_def)


lemma ok_iff: "ok b \<longleftrightarrow> (\<forall>i<length b. smallEnd b i \<le> bigEnd b i)"
  by (auto simp: ok_def list_all_length smallEnd_def bigEnd_def split: prod.splits)

lemma contains_iff:
  "contains a b \<longleftrightarrow> length a = length b \<and>
     (\<forall>i<length a. smallEnd a i \<le> smallEnd b i \<and> bigEnd b i \<le> bigEnd a i)"
  by (auto simp: contains_def list_all2_conv_all_nth smallEnd_def bigEnd_def case_prod_unfold)

lemma isect_length: "length a = length b \<Longrightarrow> length (isect a b) = length a"
  by (simp add: isect_def)

lemma isect_ends:
  assumes "length a = length b" "i < length a"
  shows "smallEnd (isect a b) i = max (smallEnd a i) (smallEnd b i)"
    "bigEnd (isect a b) i = min (bigEnd a i) (bigEnd b i)"
  using assms by (simp_all add: isect_def smallEnd_def bigEnd_def split: prod.splits)

lemma isect_mismatch: "length a \<noteq> length b \<Longrightarrow> \<not> ok (isect a b)"
  by (simp add: isect_def ok_def)

lemma intersects_iff:
  "intersects a b \<longleftrightarrow> length a = length b \<and>
     (\<forall>i<length a. smallEnd a i \<le> bigEnd a i \<and> smallEnd b i \<le> bigEnd b i \<and>
        smallEnd a i \<le> bigEnd b i \<and> smallEnd b i \<le> bigEnd a i)"
proof (cases "length a = length b")
  case True
  then show ?thesis
    unfolding intersects_def ok_iff by (auto simp: isect_length isect_ends)
next
  case False
  then show ?thesis by (simp add: intersects_def isect_mismatch)
qed




lemma not_intersects_axis:
  assumes "i < length a" "bigEnd a i < smallEnd b i \<or> bigEnd b i < smallEnd a i"
  shows "\<not> intersects a b"
  using assms unfolding intersects_iff by (metis not_le)




lemma ok_contains: "contains b p \<Longrightarrow> ok p \<Longrightarrow> ok b"
  unfolding ok_iff contains_iff by (metis order_trans)


lemma isect_contains: "ok (isect a b) \<Longrightarrow> contains a (isect a b) \<and> contains b (isect a b)"
proof -
  assume o: "ok (isect a b)"
  then have len: "length a = length b" using isect_mismatch by blast
  show ?thesis
    unfolding contains_iff using len by (simp add: isect_length isect_ends)
qed

lemma boxDiff_loop_length:
  "i \<le> length b1 \<Longrightarrow> p \<in> set (boxDiff_loop i b1 b2) \<Longrightarrow> length p = length b1"
proof (induction i arbitrary: b1)
  case 0
  then show ?case by simp
next
  case (Suc i)
  then have i: "i < length b1" by simp
  have IH: "\<And>b. length b = length b1 \<Longrightarrow> p \<in> set (boxDiff_loop i b b2) \<Longrightarrow> length p = length b1"
    using Suc.IH i by (metis less_imp_le_nat)
  from Suc.prems(2) show ?case
    unfolding boxDiff_loop_Suc[OF i] by (auto split: if_splits intro: IH[rotated])
qed

lemma boxDiff_loop_count: "i \<le> length b1 \<Longrightarrow> length (boxDiff_loop i b1 b2) \<le> 2 * i"
proof (induction i arbitrary: b1)
  case 0
  then show ?case by simp
next
  case (Suc i)
  then have i: "i < length b1" by simp
  have IH: "\<And>b. length b = length b1 \<Longrightarrow> length (boxDiff_loop i b b2) \<le> 2 * i"
    using Suc.IH i by (metis less_imp_le_nat)
  have "length (boxDiff_loop i (b1[i := (smallEnd b2 i, bigEnd b2 i)]) b2) \<le> 2 * i"
    "length (boxDiff_loop i (b1[i := (smallEnd b2 i, bigEnd b1 i)]) b2) \<le> 2 * i"
    "length (boxDiff_loop i (b1[i := (smallEnd b1 i, bigEnd b2 i)]) b2) \<le> 2 * i"
    "length (boxDiff_loop i b1 b2) \<le> 2 * i"
    by (rule IH, simp)+
  then show ?case
    unfolding boxDiff_loop_Suc[OF i] by simp
qed

lemma vol_cut:
  assumes "i < length b" "smallEnd b i \<le> m" "m \<le> bigEnd b i + 1"
  shows "vol (b[i := (smallEnd b i, m - 1)]) + vol (b[i := (m, bigEnd b i)]) = vol b"
  using vol_split[OF assms(1), of "smallEnd b i" m "bigEnd b i"] assms(2,3) by simp

lemma boxDiff_loop_vol:
  "i \<le> length b1 \<Longrightarrow> ok b1 \<Longrightarrow> sum_list (map vol (boxDiff_loop i b1 b2)) < vol b1"
proof (induction i arbitrary: b1)
  case 0
  then show ?case by (simp add: ok_pos)
next
  case (Suc i)
  then have i: "i < length b1" by simp
  have IH: "\<And>b. length b = length b1 \<Longrightarrow> ok b \<Longrightarrow> sum_list (map vol (boxDiff_loop i b b2)) < vol b"
    using Suc.IH i by (metis less_imp_le_nat)
  let ?l1 = "smallEnd b1 i" and ?h1 = "bigEnd b1 i" and ?l2 = "smallEnd b2 i" and ?h2 = "bigEnd b2 i"
  have b1: "?l1 \<le> ?h1" using Suc.prems(2) i by (simp add: ok_iff)
  show ?case
  proof (cases "?l1 < ?l2 \<and> ?l2 \<le> ?h1")
    case lo: True
    let ?b' = "b1[i := (?l2, ?h1)]"
    have ok': "ok ?b'" using Suc.prems(2) lo by (simp add: ok_update)
    have v1: "vol (b1[i := (?l1, ?l2 - 1)]) + vol ?b' = vol b1"
      using vol_cut[OF i, of ?l2] lo by simp
    show ?thesis
    proof (cases "?l2 \<le> ?h2 \<and> ?h2 < ?h1")
      case hi: True
      let ?b'' = "b1[i := (?l2, ?h2)]"
      have ok'': "ok ?b''" using Suc.prems(2) hi by (simp add: ok_update)
      have "vol (?b'[i := (smallEnd ?b' i, (?h2 + 1) - 1)]) + vol (?b'[i := (?h2 + 1, bigEnd ?b' i)])
          = vol ?b'"
        by (rule vol_cut) (use i hi in simp_all)
      then have v2: "vol ?b'' + vol (b1[i := (?h2 + 1, ?h1)]) = vol ?b'"
        using i by simp
      from IH[of ?b''] ok'' have "sum_list (map vol (boxDiff_loop i ?b'' b2)) < vol ?b''" by simp
      with v1 v2 show ?thesis
        unfolding boxDiff_loop_Suc[OF i] if_P[OF lo] if_P[OF hi] by simp
    next
      case hi: False
      from IH[of ?b'] ok' have "sum_list (map vol (boxDiff_loop i ?b' b2)) < vol ?b'" by simp
      with v1 show ?thesis
        unfolding boxDiff_loop_Suc[OF i] if_P[OF lo] if_not_P[OF hi] by simp
    qed
  next
    case lo: False
    show ?thesis
    proof (cases "?l1 \<le> ?h2 \<and> ?h2 < ?h1")
      case hi: True
      let ?b'' = "b1[i := (?l1, ?h2)]"
      have ok'': "ok ?b''" using Suc.prems(2) hi by (simp add: ok_update)
      have "vol (b1[i := (?l1, (?h2 + 1) - 1)]) + vol (b1[i := (?h2 + 1, ?h1)]) = vol b1"
        by (rule vol_cut) (use i hi in simp_all)
      then have v2: "vol ?b'' + vol (b1[i := (?h2 + 1, ?h1)]) = vol b1" by simp
      from IH[of ?b''] ok'' have "sum_list (map vol (boxDiff_loop i ?b'' b2)) < vol ?b''" by simp
      with v2 show ?thesis
        unfolding boxDiff_loop_Suc[OF i] if_not_P[OF lo] if_P[OF hi] by simp
    next
      case hi: False
      from IH[of b1] Suc.prems(2) show ?thesis
        unfolding boxDiff_loop_Suc[OF i] if_not_P[OF lo] if_not_P[OF hi] by simp
    qed
  qed
qed

lemma boxDiff_loop_cases:
  assumes i: "i < length b1" and p: "p \<in> set (boxDiff_loop (Suc i) b1 b2)"
  obtains (below) "smallEnd b1 i < smallEnd b2 i" "smallEnd b2 i \<le> bigEnd b1 i"
      "p = b1[i := (smallEnd b1 i, smallEnd b2 i - 1)]"
  | (above) "bigEnd b2 i < bigEnd b1 i" "smallEnd b1 i \<le> bigEnd b2 i + 1"
      "p = b1[i := (bigEnd b2 i + 1, bigEnd b1 i)]"
  | (rest) l h where "smallEnd b1 i \<le> l" "h \<le> bigEnd b1 i"
      "p \<in> set (boxDiff_loop i (b1[i := (l, h)]) b2)"
proof -
  let ?l1 = "smallEnd b1 i" and ?h1 = "bigEnd b1 i" and ?l2 = "smallEnd b2 i" and ?h2 = "bigEnd b2 i"
  show thesis
  proof (cases "?l1 < ?l2 \<and> ?l2 \<le> ?h1")
    case lo: True
    show ?thesis
    proof (cases "?l2 \<le> ?h2 \<and> ?h2 < ?h1")
      case hi: True
      from p have "p = b1[i := (?l1, ?l2 - 1)] \<or> p = b1[i := (?h2 + 1, ?h1)] \<or>
          p \<in> set (boxDiff_loop i (b1[i := (?l2, ?h2)]) b2)"
        unfolding boxDiff_loop_Suc[OF i] if_P[OF lo] if_P[OF hi] by simp
      then show ?thesis
        using below above rest[of ?l2 ?h2] lo hi by fastforce
    next
      case hi: False
      from p have "p = b1[i := (?l1, ?l2 - 1)] \<or>
          p \<in> set (boxDiff_loop i (b1[i := (?l2, ?h1)]) b2)"
        unfolding boxDiff_loop_Suc[OF i] if_P[OF lo] if_not_P[OF hi] by simp
      then show ?thesis
        using below rest[of ?l2 ?h1] lo by fastforce
    qed
  next
    case lo: False
    show ?thesis
    proof (cases "?l1 \<le> ?h2 \<and> ?h2 < ?h1")
      case hi: True
      from p have "p = b1[i := (?h2 + 1, ?h1)] \<or>
          p \<in> set (boxDiff_loop i (b1[i := (?l1, ?h2)]) b2)"
        unfolding boxDiff_loop_Suc[OF i] if_not_P[OF lo] if_P[OF hi] by simp
      then show ?thesis
        using above rest[of ?l1 ?h2] hi by fastforce
    next
      case hi: False
      from p have "p \<in> set (boxDiff_loop i (b1[i := (?l1, ?h1)]) b2)"
        unfolding boxDiff_loop_Suc[OF i] if_not_P[OF lo] if_not_P[OF hi] by simp
      then show ?thesis
        using rest[of ?l1 ?h1] by simp
    qed
  qed
qed


lemma boxDiff_loop_disjoint:
  "i \<le> length b1 \<Longrightarrow> p \<in> set (boxDiff_loop i b1 b2) \<Longrightarrow> \<not> intersects p b2"
proof (induction i arbitrary: b1)
  case 0
  then show ?case by simp
next
  case (Suc i)
  then have i: "i < length b1" by simp
  from i Suc.prems(2) show ?case
  proof (cases rule: boxDiff_loop_cases)
    case below
    show ?thesis unfolding below(3)
      by (rule not_intersects_axis[of i]) (use i in simp_all)
  next
    case above
    show ?thesis unfolding above(3)
      by (rule not_intersects_axis[of i]) (use i in simp_all)
  next
    case (rest l h)
    have "i \<le> length (b1[i := (l, h)])" using i by simp
    from Suc.IH[OF this rest(3)] show ?thesis .
  qed
qed


lemma boxDiff_disjoint: "p \<in> set (boxDiff b1 b2) \<Longrightarrow> \<not> intersects p b2"
  using boxDiff_loop_disjoint[of "length b1" b1 p b2]
  by (auto simp: boxDiff_def split: if_splits)


lemma contains_intersects: "contains b p \<Longrightarrow> ok p \<Longrightarrow> intersects b p"
  unfolding contains_iff intersects_iff ok_iff
  by (metis order_trans)

lemma sum_weight:
  assumes "\<forall>p\<in>set ps. length p = d"
  shows "sum_list (map weight ps) = (2 * d + 1) * sum_list (map vol ps)"
  using assms by (induction ps) (simp_all add: weight_def algebra_simps)

lemma boxDiff_weight:
  assumes "ok b" "intersects b c"
  shows "weight (EmptyBox (length b)) + sum_list (map weight (boxDiff b c)) + length (boxDiff b c)
           \<le> weight b"
proof (cases "contains c b")
  case True
  have "weight (EmptyBox (length b)) \<le> 1" by (rule weight_EmptyBox)
  moreover have "1 \<le> weight b" using ok_pos[OF assms(1)] by (simp add: weight_def)
  ultimately show ?thesis using True by (simp add: boxDiff_def)
next
  case False
  let ?d = "length b"
  let ?P = "boxDiff_loop ?d b c"
  have bd: "boxDiff b c = ?P" using False assms(2) by (simp add: boxDiff_def)
  have len: "\<forall>p\<in>set ?P. length p = ?d" using boxDiff_loop_length[of ?d b _ c] by simp
  have cnt: "length ?P \<le> 2 * ?d" by (rule boxDiff_loop_count) simp
  have v: "sum_list (map vol ?P) + 1 \<le> vol b"
    using boxDiff_loop_vol[of ?d b c] assms(1) by simp
  have "(2 * ?d + 1) * (sum_list (map vol ?P) + 1) \<le> (2 * ?d + 1) * vol b"
    using v by (rule mult_le_mono2)
  then have w: "sum_list (map weight ?P) + (2 * ?d + 1) \<le> weight b"
    unfolding sum_weight[OF len] weight_def by (simp add: algebra_simps)
  have e: "weight (EmptyBox ?d) + length ?P \<le> 2 * ?d + 1"
  proof (cases "?d = 0")
    case True
    then show ?thesis using cnt weight_EmptyBox[of ?d] by simp
  next
    case False
    then have "weight (EmptyBox ?d) = 0" by (simp add: weight_def vol_EmptyBox)
    then show ?thesis using cnt by simp
  qed
  from w e show ?thesis unfolding bd by linarith
qed

lemma sum_list_update_nat:
  fixes f :: "'a \<Rightarrow> nat"
  assumes "j < length xs"
  shows "sum_list (map f (xs[j := y])) + f (xs ! j) = sum_list (map f xs) + f y"
  using assms
proof (induction xs arbitrary: j)
  case Nil
  then show ?case by simp
next
  case (Cons x xs)
  then show ?case by (cases j) (simp_all add: add.assoc add.left_commute)
qed

lemma cut_length: "length acc \<le> length (cut i acc p)"
  by (cases p) (simp add: cut_def)

lemma cut_nth_other:
  assumes "k < length acc" "k \<noteq> fst p"
  shows "cut i acc p ! k = acc ! k"
  using assms by (cases p) (simp add: cut_def nth_append)

lemma cut_potential:
  assumes j: "j < length acc" and o: "ok is" and e: "is = isect (acc ! j) c"
  shows "potential (cut i acc (j, is)) \<le> potential acc"
proof (cases "j = i")
  case True
  then show ?thesis by (simp add: cut_def)
next
  case False
  let ?b = "acc ! j"
  have c: "contains ?b is" using isect_contains[of ?b c] o e by simp
  have okb: "ok ?b" using ok_contains[OF c o] .
  have int: "intersects ?b is" using contains_intersects[OF c o] .
  note w = boxDiff_weight[OF okb int]
  note u = sum_list_update_nat[OF j, of weight "EmptyBox (length ?b)"]
  have "potential (cut i acc (j, is)) + weight ?b
      = sum_list (map weight (acc[j := EmptyBox (length ?b)])) + weight ?b
        + sum_list (map weight (boxDiff ?b is)) + length acc + length (boxDiff ?b is)"
    using False by (simp add: cut_def potential_def)
  also have "\<dots> = sum_list (map weight acc) + weight (EmptyBox (length ?b))
        + sum_list (map weight (boxDiff ?b is)) + length acc + length (boxDiff ?b is)"
    using u by simp
  also have "\<dots> \<le> sum_list (map weight acc) + length acc + weight ?b"
    using w by simp
  finally show ?thesis by (simp add: potential_def)
qed

lemma fold_cut_potential:
  assumes "distinct (map fst ps)"
    "\<forall>p\<in>set ps. fst p < length acc \<and> ok (snd p) \<and> snd p = isect (acc ! fst p) c"
  shows "potential (foldl (cut i) acc ps) \<le> potential acc \<and>
         length acc \<le> length (foldl (cut i) acc ps)"
  using assms
proof (induction ps arbitrary: acc)
  case Nil
  then show ?case by simp
next
  case (Cons p ps)
  obtain j "is" where p: "p = (j, is)" by (cases p)
  from Cons.prems p have j: "j < length acc" "ok is" "is = isect (acc ! j) c" by auto
  let ?acc = "cut i acc p"
  have pot: "potential ?acc \<le> potential acc" unfolding p using j by (rule cut_potential)
  have len: "length acc \<le> length ?acc" by (rule cut_length)
  have "\<forall>q\<in>set ps. fst q < length ?acc \<and> ok (snd q) \<and> snd q = isect (?acc ! fst q) c"
  proof
    fix q assume q: "q \<in> set ps"
    with Cons.prems have a: "fst q < length acc" "ok (snd q)" "snd q = isect (acc ! fst q) c"
      by auto
    from q Cons.prems(1) have ne: "fst q \<noteq> fst p"
      by (metis distinct.simps(2) image_eqI list.simps(9) set_map)
    from cut_nth_other[OF a(1) ne] a len
    show "fst q < length ?acc \<and> ok (snd q) \<and> snd q = isect (?acc ! fst q) c" by simp
  qed
  moreover have "distinct (map fst ps)" using Cons.prems by simp
  ultimately have "potential (foldl (cut i) ?acc ps) \<le> potential ?acc \<and>
         length ?acc \<le> length (foldl (cut i) ?acc ps)"
    by (rule Cons.IH[rotated])
  with pot len show ?case by simp
qed

lemma intersections_distinct: "distinct (map fst (intersections ba bx))"
proof -
  have "map fst (map (\<lambda>j. (j, isect (ba ! j) bx)) [0..<length ba]) = [0..<length ba]"
    by (simp add: o_def)
  then have "distinct (map fst (map (\<lambda>j. (j, isect (ba ! j) bx)) [0..<length ba]))" by simp
  then show ?thesis unfolding intersections_def by (rule distinct_map_filter)
qed

lemma intersections_set:
  "p \<in> set (intersections ba bx) \<longleftrightarrow>
     fst p < length ba \<and> ok (snd p) \<and> snd p = isect (ba ! fst p) bx"
  by (cases p) (auto simp: intersections_def)

lemma removeOverlap_step_potential:
  "potential (removeOverlap_step i bxs) \<le> potential bxs \<and>
   length bxs \<le> length (removeOverlap_step i bxs)"
  unfolding removeOverlap_step_def
proof (rule fold_cut_potential[OF intersections_distinct, where c = "bxs ! i"])
  show "\<forall>p\<in>set (intersections bxs (bxs ! i)).
          fst p < length bxs \<and> ok (snd p) \<and> snd p = isect (bxs ! fst p) (bxs ! i)"
    using intersections_set[of _ bxs "bxs ! i"] by blast
qed

lemma potential_length: "length bxs \<le> potential bxs"
  by (simp add: potential_def)

function removeOverlap_loop :: "nat \<Rightarrow> Box list \<Rightarrow> Box list" where
  "removeOverlap_loop i bxs =
     (if i < length bxs
      then removeOverlap_loop (Suc i) (if ok (bxs ! i) then removeOverlap_step i bxs else bxs)
      else bxs)"
  by pat_completeness auto
termination
proof (relation "measure (\<lambda>(i, bxs). potential bxs - i)")
  fix i :: nat and bxs :: "Box list"
  assume i: "i < length bxs"
  let ?bxs = "if ok (bxs ! i) then removeOverlap_step i bxs else bxs"
  have "potential ?bxs \<le> potential bxs" using removeOverlap_step_potential[of i bxs] by simp
  moreover have "i < potential bxs" using i potential_length[of bxs] by simp
  ultimately show "((Suc i, ?bxs), (i, bxs)) \<in> measure (\<lambda>(i, bxs). potential bxs - i)"
    by simp
qed simp

declare removeOverlap_loop.simps [simp del]

definition removeOverlap :: "Box list \<Rightarrow> Box list" where
  "removeOverlap bl = filter ok (removeOverlap_loop 0 bl)"

section \<open>Damping profiles\<close>

text \<open>
  \<open>Real\<close> is modelled by the real numbers: rounding is not part of the model.
  \<open>PhysConst::c\<close> is declared outside this file and is passed as the parameter \<open>c\<close>.

  A \<open>Sigma\<close> is a vector of reals with the index range \<open>[m_lo, m_hi]\<close> it stands
  for.  The C++ code writes through raw pointers; an index outside the vector is undefined
  behaviour there and the error \<open>OutOfBounds\<close> here.
\<close>

datatype error = OutOfBounds | BlockingFactor | PSATDNotBuilt | NullPointer

record Sigma =
  m_lo :: int
  m_hi :: int
  data :: "real list"

definition put :: "real list \<Rightarrow> int \<Rightarrow> real \<Rightarrow> error + real list" where
  "put xs k v = (if 0 \<le> k \<and> k < int (length xs) then Inr (xs[nat k := v]) else Inl OutOfBounds)"

definition get :: "real list \<Rightarrow> int \<Rightarrow> error + real" where
  "get xs k = (if 0 \<le> k \<and> k < int (length xs) then Inr (xs ! nat k) else Inl OutOfBounds)"

text \<open>The value global index \<open>i\<close> stands for in a \<open>Sigma\<close>.\<close>

definition Sigma_at :: "Sigma \<Rightarrow> int \<Rightarrow> real" where
  "Sigma_at s i = data s ! nat (i - m_lo s)"

text \<open>
  \<open>for_nat n f\<close> is the loop \<open>for (k = 0; k < n; ++k) f(k)\<close>; it stops at the first
  error.  \<open>amrex::ParallelFor(N, f)\<close> calls \<open>f(0)\<close>, ..., \<open>f(N-1)\<close>; the calls of one
  loop write different entries, so the order does not matter and the model runs them in
  increasing order.
\<close>

primrec for_nat :: "nat \<Rightarrow> (nat \<Rightarrow> 's \<Rightarrow> error + 's) \<Rightarrow> 's \<Rightarrow> error + 's" where
  "for_nat 0 f s = Inr s"
| "for_nat (Suc n) f s = (case for_nat n f s of Inl e \<Rightarrow> Inl e | Inr s' \<Rightarrow> f n s')"

definition ParallelFor :: "int \<Rightarrow> (int \<Rightarrow> 's \<Rightarrow> error + 's) \<Rightarrow> 's \<Rightarrow> error + 's" where
  "ParallelFor N f s = for_nat (nat N) (\<lambda>n. f (int n)) s"

type_synonym profiles = "real list \<times> real list \<times> real list \<times> real list"

text \<open>The body of the loop of \<open>FillLo\<close>, after \<open>i += olo\<close>.\<close>

definition FillLo_body ::
  "real \<Rightarrow> real \<Rightarrow> int \<Rightarrow> int \<Rightarrow> int \<Rightarrow> int \<Rightarrow> int \<Rightarrow> profiles \<Rightarrow> error + profiles" where
  "FillLo_body c fac glo ohi slo sslo i st =
     (case st of (p_sigma, p_sigma_cumsum, p_sigma_star, p_sigma_star_cumsum) \<Rightarrow>
      let offset = real_of_int (glo - i) in
      case put p_sigma (i - slo) (fac * (offset * offset)) of Inl e \<Rightarrow> Inl e | Inr p_sigma' \<Rightarrow>
      case put p_sigma_cumsum (i - slo) ((fac * (offset * offset * offset) / 3) / c) of
        Inl e \<Rightarrow> Inl e | Inr p_sigma_cumsum' \<Rightarrow>
      if i \<le> ohi + 1 then
        let offset = real_of_int (glo - i) - 0.5 in
        case put p_sigma_star (i - sslo) (fac * (offset * offset)) of
          Inl e \<Rightarrow> Inl e | Inr p_sigma_star' \<Rightarrow>
        case put p_sigma_star_cumsum (i - sslo) ((fac * (offset * offset * offset) / 3) / c) of
          Inl e \<Rightarrow> Inl e | Inr p_sigma_star_cumsum' \<Rightarrow>
        Inr (p_sigma', p_sigma_cumsum', p_sigma_star', p_sigma_star_cumsum')
      else Inr (p_sigma', p_sigma_cumsum', p_sigma_star, p_sigma_star_cumsum))"

definition FillHi_body ::
  "real \<Rightarrow> real \<Rightarrow> int \<Rightarrow> int \<Rightarrow> int \<Rightarrow> int \<Rightarrow> int \<Rightarrow> profiles \<Rightarrow> error + profiles" where
  "FillHi_body c fac ghi ohi slo sslo i st =
     (case st of (p_sigma, p_sigma_cumsum, p_sigma_star, p_sigma_star_cumsum) \<Rightarrow>
      let offset = real_of_int (i - ghi - 1) in
      case put p_sigma (i - slo) (fac * (offset * offset)) of Inl e \<Rightarrow> Inl e | Inr p_sigma' \<Rightarrow>
      case put p_sigma_cumsum (i - slo) ((fac * (offset * offset * offset) / 3) / c) of
        Inl e \<Rightarrow> Inl e | Inr p_sigma_cumsum' \<Rightarrow>
      if i \<le> ohi + 1 then
        let offset = real_of_int (i - ghi) - 0.5 in
        case put p_sigma_star (i - sslo) (fac * (offset * offset)) of
          Inl e \<Rightarrow> Inl e | Inr p_sigma_star' \<Rightarrow>
        case put p_sigma_star_cumsum (i - sslo) ((fac * (offset * offset * offset) / 3) / c) of
          Inl e \<Rightarrow> Inl e | Inr p_sigma_star_cumsum' \<Rightarrow>
        Inr (p_sigma', p_sigma_cumsum', p_sigma_star', p_sigma_star_cumsum')
      else Inr (p_sigma', p_sigma_cumsum', p_sigma_star, p_sigma_star_cumsum))"

text \<open>The four vectors of a fill call, put back into their \<open>Sigma\<close>s.\<close>

definition store ::
  "Sigma \<Rightarrow> Sigma \<Rightarrow> Sigma \<Rightarrow> Sigma \<Rightarrow> profiles \<Rightarrow> Sigma \<times> Sigma \<times> Sigma \<times> Sigma" where
  "store sg sg_cumsum sg_star sg_star_cumsum st =
     (case st of (a, b, c, d) \<Rightarrow>
        (sg\<lparr>data := a\<rparr>, sg_cumsum\<lparr>data := b\<rparr>, sg_star\<lparr>data := c\<rparr>,
         sg_star_cumsum\<lparr>data := d\<rparr>))"

definition FillLo ::
  "real \<Rightarrow> nat \<Rightarrow> Sigma \<Rightarrow> Sigma \<Rightarrow> Sigma \<Rightarrow> Sigma \<Rightarrow> Box \<Rightarrow> Box \<Rightarrow> real \<Rightarrow>
   error + (Sigma \<times> Sigma \<times> Sigma \<times> Sigma)" where
  "FillLo c idim sg sg_cumsum sg_star sg_star_cumsum overlap grid fac =
     (let glo = smallEnd grid idim;
          olo = smallEnd overlap idim;
          ohi = bigEnd overlap idim;
          slo = m_lo sg;
          sslo = m_lo sg_star;
          N = ohi + 1 - olo + 1
      in case ParallelFor N (\<lambda>i. FillLo_body c fac glo ohi slo sslo (i + olo))
                (data sg, data sg_cumsum, data sg_star, data sg_star_cumsum) of
           Inl e \<Rightarrow> Inl e
         | Inr st \<Rightarrow> Inr (store sg sg_cumsum sg_star sg_star_cumsum st))"

definition FillHi ::
  "real \<Rightarrow> nat \<Rightarrow> Sigma \<Rightarrow> Sigma \<Rightarrow> Sigma \<Rightarrow> Sigma \<Rightarrow> Box \<Rightarrow> Box \<Rightarrow> real \<Rightarrow>
   error + (Sigma \<times> Sigma \<times> Sigma \<times> Sigma)" where
  "FillHi c idim sg sg_cumsum sg_star sg_star_cumsum overlap grid fac =
     (let ghi = bigEnd grid idim;
          olo = smallEnd overlap idim;
          ohi = bigEnd overlap idim;
          slo = m_lo sg;
          sslo = m_lo sg_star;
          N = ohi + 1 - olo + 1
      in case ParallelFor N (\<lambda>i. FillHi_body c fac ghi ohi slo sslo (i + olo))
                (data sg, data sg_cumsum, data sg_star, data sg_star_cumsum) of
           Inl e \<Rightarrow> Inl e
         | Inr st \<Rightarrow> Inr (store sg sg_cumsum sg_star sg_star_cumsum st))"

text \<open>The factor the constructor of \<open>SigmaBox\<close> hands to the fill routines for axis \<open>idim\<close>.\<close>

definition SigmaBox_fac :: "real \<Rightarrow> real list \<Rightarrow> int \<Rightarrow> nat \<Rightarrow> real" where
  "SigmaBox_fac c dx delta idim = 4 * c / (dx ! idim * real_of_int (delta * delta))"

section \<open>Decay factors\<close>

text \<open>
  A \<open>SigmaBox\<close> holds, for every axis, the four profile vectors and the four vectors of
  decay factors (\<open>std::array<Sigma,AMREX_SPACEDIM>\<close> each in C++); the model keeps the
  eight vectors of one axis together, so \<open>sigma[idim]\<close> of the source is
  \<open>sigma (sb ! idim)\<close>.
\<close>

record SigmaAxis =
  sigma :: Sigma
  sigma_cumsum :: Sigma
  sigma_star :: Sigma
  sigma_star_cumsum :: Sigma
  sigma_fac :: Sigma
  sigma_cumsum_fac :: Sigma
  sigma_star_fac :: Sigma
  sigma_star_cumsum_fac :: Sigma

type_synonym SigmaBox = "SigmaAxis list"

text \<open>The statement under \<open>if (i < N[idim])\<close> in \<open>SigmaBox::ComputePMLFactorsB\<close>.\<close>

definition FactorsB_axis :: "real list \<Rightarrow> real \<Rightarrow> int \<Rightarrow> nat \<Rightarrow> SigmaBox \<Rightarrow> error + SigmaBox" where
  "FactorsB_axis dx dt i idim sb =
     (let ax = sb ! idim in
      if i < int (length (data (sigma_star ax))) then
        case get (data (sigma_star ax)) i of Inl e \<Rightarrow> Inl e | Inr s \<Rightarrow>
        case put (data (sigma_star_fac ax)) i (exp (- s * dt)) of Inl e \<Rightarrow> Inl e | Inr f \<Rightarrow>
        case get (data (sigma_star_cumsum ax)) i of Inl e \<Rightarrow> Inl e | Inr sc \<Rightarrow>
        case put (data (sigma_star_cumsum_fac ax)) i (exp (- sc * dx ! idim)) of
          Inl e \<Rightarrow> Inl e | Inr fc \<Rightarrow>
        Inr (sb[idim := ax\<lparr>sigma_star_fac := (sigma_star_fac ax)\<lparr>data := f\<rparr>,
                            sigma_star_cumsum_fac := (sigma_star_cumsum_fac ax)\<lparr>data := fc\<rparr>\<rparr>])
      else Inr sb)"

definition SigmaBox_ComputePMLFactorsB :: "real list \<Rightarrow> real \<Rightarrow> SigmaBox \<Rightarrow> error + SigmaBox" where
  "SigmaBox_ComputePMLFactorsB a_dx dt sb =
     (let N = map (\<lambda>ax. int (length (data (sigma_star ax)))) sb
      in ParallelFor (foldr max N 0)
           (\<lambda>i. for_nat (length sb) (FactorsB_axis a_dx dt i)) sb)"

definition FactorsE_axis :: "real list \<Rightarrow> real \<Rightarrow> int \<Rightarrow> nat \<Rightarrow> SigmaBox \<Rightarrow> error + SigmaBox" where
  "FactorsE_axis dx dt i idim sb =
     (let ax = sb ! idim in
      if i < int (length (data (sigma ax))) then
        case get (data (sigma ax)) i of Inl e \<Rightarrow> Inl e | Inr s \<Rightarrow>
        case put (data (sigma_fac ax)) i (exp (- s * dt)) of Inl e \<Rightarrow> Inl e | Inr f \<Rightarrow>
        case get (data (sigma_cumsum ax)) i of Inl e \<Rightarrow> Inl e | Inr sc \<Rightarrow>
        case put (data (sigma_cumsum_fac ax)) i (exp (- sc * dx ! idim)) of
          Inl e \<Rightarrow> Inl e | Inr fc \<Rightarrow>
        Inr (sb[idim := ax\<lparr>sigma_fac := (sigma_fac ax)\<lparr>data := f\<rparr>,
                            sigma_cumsum_fac := (sigma_cumsum_fac ax)\<lparr>data := fc\<rparr>\<rparr>])
      else Inr sb)"

definition SigmaBox_ComputePMLFactorsE :: "real list \<Rightarrow> real \<Rightarrow> SigmaBox \<Rightarrow> error + SigmaBox" where
  "SigmaBox_ComputePMLFactorsE a_dx dt sb =
     (let N = map (\<lambda>ax. int (length (data (sigma ax)))) sb
      in ParallelFor (foldr max N 0)
           (\<lambda>i. for_nat (length sb) (FactorsE_axis a_dx dt i)) sb)"

text \<open>
  A \<open>MultiSigmaBox\<close> is the \<open>SigmaBox\<close>es of the layer's blocks together with the time
  steps the factors were last computed for.
\<close>

record MultiSigmaBox =
  sboxes :: "SigmaBox list"
  dt_B :: real
  dt_E :: real

text \<open>The loop \<open>for (MFIter mfi(*this); mfi.isValid(); ++mfi)\<close> over the blocks.\<close>

primrec for_boxes :: "(SigmaBox \<Rightarrow> error + SigmaBox) \<Rightarrow> SigmaBox list \<Rightarrow> error + SigmaBox list" where
  "for_boxes f [] = Inr []"
| "for_boxes f (b # bs) =
     (case f b of Inl e \<Rightarrow> Inl e
      | Inr b' \<Rightarrow> (case for_boxes f bs of Inl e \<Rightarrow> Inl e | Inr bs' \<Rightarrow> Inr (b' # bs')))"

definition MultiSigmaBox_ComputePMLFactorsB ::
  "real list \<Rightarrow> real \<Rightarrow> MultiSigmaBox \<Rightarrow> error + MultiSigmaBox" where
  "MultiSigmaBox_ComputePMLFactorsB dx dt m =
     (if dt = dt_B m then Inr m
      else case for_boxes (SigmaBox_ComputePMLFactorsB dx dt) (sboxes (m\<lparr>dt_B := dt\<rparr>)) of
             Inl e \<Rightarrow> Inl e
           | Inr bs \<Rightarrow> Inr (m\<lparr>dt_B := dt, sboxes := bs\<rparr>))"

definition MultiSigmaBox_ComputePMLFactorsE ::
  "real list \<Rightarrow> real \<Rightarrow> MultiSigmaBox \<Rightarrow> error + MultiSigmaBox" where
  "MultiSigmaBox_ComputePMLFactorsE dx dt m =
     (if dt = dt_E m then Inr m
      else case for_boxes (SigmaBox_ComputePMLFactorsE dx dt) (sboxes (m\<lparr>dt_E := dt\<rparr>)) of
             Inl e \<Rightarrow> Inl e
           | Inr bs \<Rightarrow> Inr (m\<lparr>dt_E := dt, sboxes := bs\<rparr>))"

text \<open>
  What the constructor of \<open>SigmaBox\<close> establishes with \<open>resize(sz[idim]+1)\<close>: the eight
  vectors of an axis have the same length.
\<close>

definition same_size :: "SigmaAxis \<Rightarrow> bool" where
  "same_size ax \<longleftrightarrow>
     (let n = length (data (sigma ax)) in
      length (data (sigma_cumsum ax)) = n \<and> length (data (sigma_star ax)) = n \<and>
      length (data (sigma_star_cumsum ax)) = n \<and> length (data (sigma_fac ax)) = n \<and>
      length (data (sigma_cumsum_fac ax)) = n \<and> length (data (sigma_star_fac ax)) = n \<and>
      length (data (sigma_star_cumsum_fac ax)) = n)"

definition sized :: "MultiSigmaBox \<Rightarrow> bool" where
  "sized m \<longleftrightarrow> list_all (list_all same_size) (sboxes m)"

section \<open>The geometry of the layer\<close>

text \<open>
  Of \<open>amrex::Geometry\<close> the file reads the domain, the periodicity of each axis and the
  cell size.  \<open>AMREX_SPACEDIM\<close> is the number of axes of the domain.
\<close>

record Geometry =
  Domain :: Box
  isPeriodic :: "bool list"
  CellSize :: "real list"

text \<open>One pass of the loop that grows the domain in \<open>PML::MakeBoxArray\<close>.\<close>

definition grow_domain_axis :: "Geometry \<Rightarrow> int \<Rightarrow> IntVect \<Rightarrow> IntVect \<Rightarrow> nat \<Rightarrow> Box \<Rightarrow> Box" where
  "grow_domain_axis geom ncell do_pml_Lo do_pml_Hi idim domain =
     (if \<not> isPeriodic geom ! idim then
        (let domain' = (if do_pml_Lo ! idim \<noteq> 0 then growLo domain idim ncell else domain)
         in if do_pml_Hi ! idim \<noteq> 0 then growHi domain' idim ncell else domain')
      else domain)"

definition grow_domain :: "Geometry \<Rightarrow> int \<Rightarrow> IntVect \<Rightarrow> IntVect \<Rightarrow> Box" where
  "grow_domain geom ncell do_pml_Lo do_pml_Hi =
     fold (grow_domain_axis geom ncell do_pml_Lo do_pml_Hi) [0..<length (Domain geom)] (Domain geom)"

text \<open>
  The assertion on one interior block: along every axis that is not periodic and has a
  layer on its low or high side, the block is longer than \<open>ncell\<close>.
\<close>

definition blocking_factor_ok :: "Geometry \<Rightarrow> int \<Rightarrow> IntVect \<Rightarrow> IntVect \<Rightarrow> Box \<Rightarrow> bool" where
  "blocking_factor_ok geom ncell do_pml_Lo do_pml_Hi grid_bx =
     list_all (\<lambda>idim.
         \<not> isPeriodic geom ! idim \<longrightarrow> do_pml_Lo ! idim \<noteq> 0 \<or> do_pml_Hi ! idim \<noteq> 0 \<longrightarrow>
           length_box grid_bx idim > ncell)
       [0..<length (Domain geom)]"

text \<open>
  The offsets \<open>(ii, jj, kk)\<close> of the loops over the neighbours, \<open>kk\<close> outermost and
  \<open>ii\<close> innermost, without \<open>(0, 0, 0)\<close>; with two axes there is no \<open>kk\<close>.
\<close>

primrec all_offsets :: "nat \<Rightarrow> IntVect list" where
  "all_offsets 0 = [[]]"
| "all_offsets (Suc d) = concat (map (\<lambda>k. map (\<lambda>v. v @ [k]) (all_offsets d)) [-1, 0, 1])"

definition neighbour_offsets :: "nat \<Rightarrow> IntVect list" where
  "neighbour_offsets d = filter (\<lambda>v. \<exists>x\<in>set v. x \<noteq> 0) (all_offsets d)"

text \<open>The boxes one interior block adds to the list \<open>bl\<close>.\<close>

definition layer_boxes :: "Box list \<Rightarrow> int \<Rightarrow> Box \<Rightarrow> Box \<Rightarrow> Box list" where
  "layer_boxes grid_ba ncell domain grid_bx =
     (let grid_bx_sz = size_box grid_bx;
          bx = isect (grow grid_bx ncell) domain;
          bndryboxes = filter ok
            (map (\<lambda>iv. isect (shift grid_bx (map2 (*) grid_bx_sz iv)) bx)
               (neighbour_offsets (length domain)));
          noncovered = complementIn grid_ba bx
      in concat (map (\<lambda>b. filter ok (map (\<lambda>bb. isect b bb) bndryboxes)) noncovered))"

fun MakeBoxArray_loop ::
  "Geometry \<Rightarrow> Box list \<Rightarrow> int \<Rightarrow> int \<Rightarrow> IntVect \<Rightarrow> IntVect \<Rightarrow> Box \<Rightarrow> Box list \<Rightarrow> Box list \<Rightarrow>
   error + Box list" where
  "MakeBoxArray_loop geom grid_ba ncell do_pml_in_domain do_pml_Lo do_pml_Hi domain [] bl = Inr bl"
| "MakeBoxArray_loop geom grid_ba ncell do_pml_in_domain do_pml_Lo do_pml_Hi domain (grid_bx # rest) bl =
     (if do_pml_in_domain = 0 \<and> \<not> blocking_factor_ok geom ncell do_pml_Lo do_pml_Hi grid_bx
      then Inl BlockingFactor
      else MakeBoxArray_loop geom grid_ba ncell do_pml_in_domain do_pml_Lo do_pml_Hi domain rest
             (bl @ layer_boxes grid_ba ncell domain grid_bx))"

definition MakeBoxArray ::
  "Geometry \<Rightarrow> Box list \<Rightarrow> int \<Rightarrow> int \<Rightarrow> IntVect \<Rightarrow> IntVect \<Rightarrow> error + Box list" where
  "MakeBoxArray geom grid_ba ncell do_pml_in_domain do_pml_Lo do_pml_Hi =
     (let domain = grow_domain geom ncell do_pml_Lo do_pml_Hi
      in case MakeBoxArray_loop geom grid_ba ncell do_pml_in_domain do_pml_Lo do_pml_Hi domain
                grid_ba [] of
           Inl e \<Rightarrow> Inl e
         | Inr bl \<Rightarrow> Inr (removeOverlap bl))"

section \<open>Fields on block sets\<close>

text \<open>
  An \<open>amrex::MultiFab\<close> is kept as its block set (the valid boxes), its numbers of ghost
  cells and of components, and for every block the values of its array: a function of the
  cell and the component.  The array of block \<open>k\<close> covers the valid box grown by the ghost
  cells; the value the function has at any other cell or component stands for no storage and
  is neither read nor written by the model.  The distribution of the blocks over processes
  is not modelled.
\<close>

type_synonym FArrayBox = "IntVect \<Rightarrow> nat \<Rightarrow> real"

record MultiFab =
  boxArray :: "Box list"
  nGrowVect :: IntVect
  nComp :: nat
  fabs :: "FArrayBox list"

definition cell_in :: "Box \<Rightarrow> IntVect \<Rightarrow> bool" where
  "cell_in b p \<longleftrightarrow> list_all2 (\<lambda>x (l, h). l \<le> x \<and> x \<le> h) p b"

text \<open>
  \<open>Box::grow(IntVect)\<close> and \<open>IntVect::max()\<close>.  An \<open>IntVect\<close> has one entry for each axis
  of the box; should the list be shorter, the remaining axes of the box are left alone.
\<close>

fun grow_vect :: "Box \<Rightarrow> IntVect \<Rightarrow> Box" where
  "grow_vect [] ng = []"
| "grow_vect ((l, h) # b) [] = (l, h) # grow_vect b []"
| "grow_vect ((l, h) # b) (n # ng) = (l - n, h + n) # grow_vect b ng"

definition IntVect_max :: "IntVect \<Rightarrow> int" where
  "IntVect_max v = fold max v (hd v)"

text \<open>
  The constructor \<open>MultiFab(ba, dm, ncomp, ngrow)\<close>; \<open>uninit\<close> is the content of the
  memory it gets, which C++ leaves unspecified.
\<close>

definition MultiFab_new :: "FArrayBox \<Rightarrow> Box list \<Rightarrow> nat \<Rightarrow> IntVect \<Rightarrow> MultiFab" where
  "MultiFab_new uninit ba ncomp ngrow =
     \<lparr>boxArray = ba, nGrowVect = ngrow, nComp = ncomp, fabs = map (\<lambda>_. uninit) ba\<rparr>"

text \<open>
  The operations on all blocks at once: each visits, for every block \<open>k\<close>, the cells of
  the valid box grown by \<open>nghost\<close> and the components \<open>dstcomp, ..., dstcomp + numcomp - 1\<close>.
\<close>

definition on_blocks ::
  "MultiFab \<Rightarrow> IntVect \<Rightarrow> nat \<Rightarrow> nat \<Rightarrow> (nat \<Rightarrow> IntVect \<Rightarrow> nat \<Rightarrow> real) \<Rightarrow> MultiFab" where
  "on_blocks dst nghost dstcomp numcomp v =
     dst\<lparr>fabs := map (\<lambda>k. \<lambda>p c.
        if dstcomp \<le> c \<and> c < dstcomp + numcomp \<and> cell_in (grow_vect (boxArray dst ! k) nghost) p
        then v k p c else (fabs dst ! k) p c) [0..<length (boxArray dst)]\<rparr>"

definition LinComb ::
  "MultiFab \<Rightarrow> real \<Rightarrow> MultiFab \<Rightarrow> nat \<Rightarrow> real \<Rightarrow> MultiFab \<Rightarrow> nat \<Rightarrow> nat \<Rightarrow> nat \<Rightarrow> IntVect \<Rightarrow> MultiFab" where
  "LinComb dst a x xcomp b y ycomp dstcomp numcomp nghost =
     on_blocks dst nghost dstcomp numcomp
       (\<lambda>k p c. a * (fabs x ! k) p (c - dstcomp + xcomp) + b * (fabs y ! k) p (c - dstcomp + ycomp))"

definition Add :: "MultiFab \<Rightarrow> MultiFab \<Rightarrow> nat \<Rightarrow> nat \<Rightarrow> nat \<Rightarrow> IntVect \<Rightarrow> MultiFab" where
  "Add dst src srccomp dstcomp numcomp nghost =
     on_blocks dst nghost dstcomp numcomp
       (\<lambda>k p c. (fabs dst ! k) p c + (fabs src ! k) p (c - dstcomp + srccomp))"

definition Copy :: "MultiFab \<Rightarrow> MultiFab \<Rightarrow> nat \<Rightarrow> nat \<Rightarrow> nat \<Rightarrow> IntVect \<Rightarrow> MultiFab" where
  "Copy dst src srccomp dstcomp numcomp nghost =
     on_blocks dst nghost dstcomp numcomp (\<lambda>k p c. (fabs src ! k) p (c - dstcomp + srccomp))"

definition setVal :: "MultiFab \<Rightarrow> real \<Rightarrow> nat \<Rightarrow> nat \<Rightarrow> IntVect \<Rightarrow> MultiFab" where
  "setVal dst val icomp ncomp nghost = on_blocks dst nghost icomp ncomp (\<lambda>k p c. val)"

text \<open>An \<open>IntVect\<close> with the same entry on every axis of the field.\<close>

definition IntVect_of :: "MultiFab \<Rightarrow> int \<Rightarrow> IntVect" where
  "IntVect_of mf n = map (\<lambda>_. n) (nGrowVect mf)"

text \<open>
  \<open>ParallelCopy\<close> moves data between two fields on different block sets.  It belongs to
  AMReX; the exchange takes it as the parameter \<open>pc\<close>, called as
  \<open>pc dst src src_comp dst_comp ncomp src_nghost dst_nghost period\<close>, where \<open>period\<close> is the
  length of the domain along the periodic axes and 0 along the others.
\<close>

type_synonym ParallelCopy_fn =
  "MultiFab \<Rightarrow> MultiFab \<Rightarrow> nat \<Rightarrow> nat \<Rightarrow> nat \<Rightarrow> IntVect \<Rightarrow> IntVect \<Rightarrow> IntVect \<Rightarrow> MultiFab"

text \<open>\<open>Geometry::periodicity()\<close>.\<close>

definition periodicity :: "Geometry \<Rightarrow> IntVect" where
  "periodicity geom =
     map2 (\<lambda>(l, h) per. if per then h - l + 1 else 0) (Domain geom) (isPeriodic geom)"

text \<open>
  The loop of \<open>PML::Exchange\<close> over the blocks of \<open>reg\<close>: in every block, component 0 of
  the cells of \<open>boxDiff(dst.box(), mfi.validbox())\<close> is copied from the temporary field.
\<close>

definition copy_ghost :: "MultiFab \<Rightarrow> MultiFab \<Rightarrow> MultiFab" where
  "copy_ghost reg tmpregmf =
     reg\<lparr>fabs := map (\<lambda>k. \<lambda>p c.
        if c = 0 \<and> list_ex (\<lambda>bx. cell_in bx p)
                     (boxDiff (grow_vect (boxArray reg ! k) (nGrowVect reg)) (boxArray reg ! k))
        then (fabs tmpregmf ! k) p 0 else (fabs reg ! k) p c)
       [0..<length (boxArray reg)]\<rparr>"

text \<open>\<open>PML::Exchange\<close>; the result is the layer field and the interior field after the call.\<close>

definition Exchange ::
  "ParallelCopy_fn \<Rightarrow> FArrayBox \<Rightarrow> MultiFab \<Rightarrow> MultiFab \<Rightarrow> Geometry \<Rightarrow> int \<Rightarrow> MultiFab \<times> MultiFab" where
  "Exchange pc uninit pml reg geom do_pml_in_domain =
     (let ngr = nGrowVect reg;
          ngp = nGrowVect pml;
          ncp = nComp pml;
          period = periodicity geom;
          tmpregmf = MultiFab_new uninit (boxArray reg) ncp ngr;
          totpmlmf = MultiFab_new uninit (boxArray pml) 1 (IntVect_of pml 0);
          totpmlmf = LinComb totpmlmf 1 pml 0 1 pml 1 0 1 (IntVect_of pml 0);
          totpmlmf = (if ncp = 3 then Add totpmlmf pml 2 0 1 (IntVect_of pml 0) else totpmlmf);
          (reg, tmpregmf) =
            (if do_pml_in_domain \<noteq> 0
             then (pc reg totpmlmf 0 0 1 (IntVect_of reg 0) (IntVect_of reg 0) period, tmpregmf)
             else if IntVect_max ngr > 0
             then (let tmpregmf = Copy tmpregmf reg 0 0 1 ngr;
                       tmpregmf = pc tmpregmf totpmlmf 0 0 1 (IntVect_of reg 0) ngr period
                   in (copy_ghost reg tmpregmf, tmpregmf))
             else (reg, tmpregmf));
          tmpregmf = Copy tmpregmf reg 0 0 1 (IntVect_of reg 0);
          tmpregmf = setVal tmpregmf 0 1 (ncp - 1) (IntVect_of reg 0);
          tmpregmf = (if do_pml_in_domain \<noteq> 0
                      then pc tmpregmf pml 0 0 ncp (IntVect_of reg 0) (IntVect_of reg 0) period
                      else tmpregmf)
      in (pc pml tmpregmf 0 0 ncp (IntVect_of reg 0) ngp period, reg))"

text \<open>\<open>PML::CopyToPML\<close>.\<close>

definition CopyToPML :: "ParallelCopy_fn \<Rightarrow> MultiFab \<Rightarrow> MultiFab \<Rightarrow> Geometry \<Rightarrow> MultiFab" where
  "CopyToPML pc pml reg geom =
     pc pml reg 0 0 1 (IntVect_of reg 0) (nGrowVect pml) (periodicity geom)"

text \<open>
  The copy that AMReX provides for \<open>pc\<close>, after \<open>FabArray::ParallelCopy\<close> with the
  operation \<open>COPY\<close>.  \<open>Periodicity::shiftIntVect\<close> lists the shifts by a whole number of
  periods, \<open>- period\<close>, 0 or \<open>period\<close> along each periodic axis.  A cell \<open>q\<close> of the
  destination, within \<open>dnghost\<close> cells of a valid box of the destination, receives the value
  of the source at \<open>q - pit\<close> when, for some shift \<open>pit\<close>, this cell lies within
  \<open>snghost\<close> cells of a valid box of the source; a cell without such a source keeps its
  value.  Where several blocks or shifts provide a source (at a node that blocks share, at a
  periodic image), AMReX performs every one of these copies, in the order of its
  communication tags, and the value written last stays.  The interface does not fix this
  order: it is the parameter \<open>ord\<close> of the model, and \<open>ord k q cands\<close> numbers, for the
  cell \<open>q\<close> of block \<open>k\<close> of the destination, the one of the sources \<open>cands\<close> that is
  written last (taken modulo their number).  All components of a cell come from the same
  source.
\<close>

definition shiftIntVect :: "IntVect \<Rightarrow> IntVect list" where
  "shiftIntVect period =
     foldr (\<lambda>per acc. concat (map (\<lambda>x. map (\<lambda>v. x # v) acc)
                                  (if per = 0 then [0] else [- per, 0, per]))) period [[]]"

definition IntVect_minus :: "IntVect \<Rightarrow> IntVect \<Rightarrow> IntVect" where
  "IntVect_minus q pit = map2 (-) q pit"

definition sources :: "Box list \<Rightarrow> IntVect \<Rightarrow> IntVect \<Rightarrow> IntVect \<Rightarrow> (nat \<times> IntVect) list" where
  "sources ba snghost period q =
     filter (\<lambda>(i, pit). cell_in (grow_vect (ba ! i) snghost) (IntVect_minus q pit))
       (concat (map (\<lambda>i. map (\<lambda>pit. (i, pit)) (shiftIntVect period)) [0..<length ba]))"

type_synonym CopyOrder = "nat \<Rightarrow> IntVect \<Rightarrow> (nat \<times> IntVect) list \<Rightarrow> nat"

definition last_written :: "CopyOrder \<Rightarrow> nat \<Rightarrow> IntVect \<Rightarrow> (nat \<times> IntVect) list \<Rightarrow> nat \<times> IntVect" where
  "last_written ord k q cands = cands ! (ord k q cands mod length cands)"

definition ParallelCopy :: "CopyOrder \<Rightarrow> ParallelCopy_fn" where
  "ParallelCopy ord dst src src_comp dst_comp ncomp snghost dnghost period =
     on_blocks dst dnghost dst_comp ncomp
       (\<lambda>k q c. case sources (boxArray src) snghost period q of
                   [] \<Rightarrow> (fabs dst ! k) q c
                 | s # ss \<Rightarrow>
                     (fabs src ! fst (last_written ord k q (s # ss)))
                       (IntVect_minus q (snd (last_written ord k q (s # ss))))
                       (c - dst_comp + src_comp))"

section \<open>The layer object\<close>

text \<open>
  What the constructor of \<open>PML\<close> reads from the simulation: the field solver, the medium,
  the macroscopic properties, and the index types of the fields of the interior (one
  \<open>IntVect\<close> of zeros and ones for each of the three components, 1 for a nodal axis).
  \<open>WARPX_USE_PSATD\<close> tells whether the spectral solver was built.  The variant with
  \<open>WARPX_MAG_LLG\<close> (the \<open>H\<close> fields) is not modelled.  A parser is kept as the text of
  its expression, and \<open>InitializeMacroMultiFabUsingParser\<close>, which belongs to
  \<open>MacroscopicProperties\<close>, is a component of the record.
\<close>

datatype MaxwellSolverAlgo = Yee | CKC | PSATD

datatype MediumForEM = Vacuum | Macroscopic

datatype PatchType = fine | coarse

type_synonym Parser = string

record MacroscopicProperties =
  m_sigma_s :: string
  m_epsilon_s :: string
  m_mu_s :: string
  m_sigma :: real
  m_epsilon :: real
  m_mu :: real
  m_sigma_parser :: Parser
  m_epsilon_parser :: Parser
  m_mu_parser :: Parser
  InitializeMacroMultiFabUsingParser :: "MultiFab \<Rightarrow> Parser \<Rightarrow> int \<Rightarrow> MultiFab"

record WarpX =
  maxwell_solver_id :: MaxwellSolverAlgo
  em_solver_medium :: MediumForEM
  m_macroscopic_properties :: MacroscopicProperties
  Efield_fp_ixType :: "IntVect list"
  Bfield_fp_ixType :: "IntVect list"
  current_fp_ixType :: "IntVect list"
  Efield_cp_ixType :: "IntVect list"
  Bfield_cp_ixType :: "IntVect list"
  current_cp_ixType :: "IntVect list"
  WARPX_USE_PSATD :: bool

text \<open>
  The members of \<open>PML\<close>.  A \<open>std::unique_ptr\<close> is an option, \<open>None\<close> the null pointer;
  a \<open>std::array\<close> of three pointers is a list of three options.
\<close>

record PML =
  m_ok :: bool
  m_geom :: Geometry
  m_cgeom :: "Geometry option"
  pml_E_fp :: "MultiFab option list"
  pml_B_fp :: "MultiFab option list"
  pml_j_fp :: "MultiFab option list"
  pml_E_cp :: "MultiFab option list"
  pml_B_cp :: "MultiFab option list"
  pml_j_cp :: "MultiFab option list"
  pml_F_fp :: "MultiFab option"
  pml_F_cp :: "MultiFab option"
  pml_eps_fp :: "MultiFab option"
  pml_mu_fp :: "MultiFab option"
  pml_sigma_fp :: "MultiFab option"
  pml_eps_cp :: "MultiFab option"
  pml_mu_cp :: "MultiFab option"
  pml_sigma_cp :: "MultiFab option"
  sigba_fp :: "MultiSigmaBox option"
  sigba_cp :: "MultiSigmaBox option"

text \<open>The object before the body of the constructor runs: every pointer is null.\<close>

definition PML_members :: "Geometry \<Rightarrow> Geometry option \<Rightarrow> PML" where
  "PML_members geom cgeom =
     \<lparr>m_ok = False, m_geom = geom, m_cgeom = cgeom,
      pml_E_fp = [None, None, None], pml_B_fp = [None, None, None], pml_j_fp = [None, None, None],
      pml_E_cp = [None, None, None], pml_B_cp = [None, None, None], pml_j_cp = [None, None, None],
      pml_F_fp = None, pml_F_cp = None,
      pml_eps_fp = None, pml_mu_fp = None, pml_sigma_fp = None,
      pml_eps_cp = None, pml_mu_cp = None, pml_sigma_cp = None,
      sigba_fp = None, sigba_cp = None\<rparr>"

subsection \<open>Library operations of the constructor\<close>

text \<open>
  \<open>BoxArray::minimalBox\<close> (the default box for an empty array), \<open>BoxList::intersect\<close>,
  \<open>amrex::convert\<close> of a cell-centred box to an index type, \<open>BoxArray::coarsen\<close> (for
  a positive ratio, where the library rounds down) and \<open>IntVect::max\<close>.  The division
  \<open>/\<close> of C++ on \<open>int\<close> rounds towards zero.
\<close>

definition minBox :: "Box \<Rightarrow> Box \<Rightarrow> Box" where
  "minBox a b = map2 (\<lambda>(la, ha) (lb, hb). (min la lb, max ha hb)) a b"

definition minimalBox :: "nat \<Rightarrow> Box list \<Rightarrow> Box" where
  "minimalBox d ba = (case ba of [] \<Rightarrow> EmptyBox d | b # bs \<Rightarrow> fold (\<lambda>x acc. minBox acc x) bs b)"

definition BoxList_intersect :: "Box list \<Rightarrow> Box \<Rightarrow> Box list" where
  "BoxList_intersect bl b = filter ok (map (\<lambda>x. isect x b) bl)"

fun convert :: "Box \<Rightarrow> IntVect \<Rightarrow> Box" where
  "convert [] typ = []"
| "convert ((l, h) # b) [] = (l, h) # convert b []"
| "convert ((l, h) # b) (t # typ) = (l, h + t) # convert b typ"

fun coarsen :: "Box \<Rightarrow> IntVect \<Rightarrow> Box" where
  "coarsen [] ratio = []"
| "coarsen ((l, h) # b) [] = (l, h) # coarsen b []"
| "coarsen ((l, h) # b) (r # ratio) = (l div r, h div r) # coarsen b ratio"

definition IntVect_vmax :: "IntVect \<Rightarrow> IntVect \<Rightarrow> IntVect" where
  "IntVect_vmax a b = map2 max a b"

definition c_div :: "int \<Rightarrow> int \<Rightarrow> int" where
  "c_div a b = sgn a * sgn b * (\<bar>a\<bar> div \<bar>b\<bar>)"

text \<open>\<open>MultiFab::setVal(val)\<close>: every component, valid and ghost cells.\<close>

definition setVal_all :: "MultiFab \<Rightarrow> real \<Rightarrow> MultiFab" where
  "setVal_all mf val = setVal mf val 0 (nComp mf) (nGrowVect mf)"

subsection \<open>The constructor\<close>

text \<open>
  The loops that shrink the bounding box of the interior blocks: by \<open>ncell\<close> for the
  fine patch, by \<open>ncell/ref_ratio[idim]\<close> for the coarse patch (\<open>n idim\<close> is the amount
  handed to \<open>growLo\<close> and \<open>growHi\<close>).
\<close>

definition shrink_axis :: "Geometry \<Rightarrow> (nat \<Rightarrow> int) \<Rightarrow> IntVect \<Rightarrow> IntVect \<Rightarrow> nat \<Rightarrow> Box \<Rightarrow> Box" where
  "shrink_axis geom n do_pml_Lo do_pml_Hi idim domain0 =
     (if \<not> isPeriodic geom ! idim then
        (let domain0' = (if do_pml_Lo ! idim \<noteq> 0 then growLo domain0 idim (n idim) else domain0)
         in if do_pml_Hi ! idim \<noteq> 0 then growHi domain0' idim (n idim) else domain0')
      else domain0)"

definition reduced ::
  "Geometry \<Rightarrow> (nat \<Rightarrow> int) \<Rightarrow> IntVect \<Rightarrow> IntVect \<Rightarrow> Box list \<Rightarrow> Box list" where
  "reduced geom n do_pml_Lo do_pml_Hi grid_ba =
     BoxList_intersect grid_ba
       (fold (shrink_axis geom n do_pml_Lo do_pml_Hi) [0..<length (Domain geom)]
          (minimalBox (length (Domain geom)) grid_ba))"

text \<open>The block set of the fine patch, lines 447 to 463.\<close>

definition grid_ba_reduced :: "Geometry \<Rightarrow> Box list \<Rightarrow> int \<Rightarrow> IntVect \<Rightarrow> IntVect \<Rightarrow> Box list" where
  "grid_ba_reduced geom grid_ba ncell do_pml_Lo do_pml_Hi =
     reduced geom (\<lambda>idim. - ncell) do_pml_Lo do_pml_Hi grid_ba"

definition fine_ba ::
  "Geometry \<Rightarrow> Box list \<Rightarrow> int \<Rightarrow> int \<Rightarrow> IntVect \<Rightarrow> IntVect \<Rightarrow> error + Box list" where
  "fine_ba geom grid_ba ncell do_pml_in_domain do_pml_Lo do_pml_Hi =
     (if do_pml_in_domain \<noteq> 0
      then MakeBoxArray geom (grid_ba_reduced geom grid_ba ncell do_pml_Lo do_pml_Hi) ncell
             do_pml_in_domain do_pml_Lo do_pml_Hi
      else MakeBoxArray geom grid_ba ncell do_pml_in_domain do_pml_Lo do_pml_Hi)"

text \<open>The numbers of ghost cells \<open>(nge, ngb, ngf)\<close>, lines 474 to 505.\<close>

definition ngFFT_of :: "nat \<Rightarrow> int \<Rightarrow> int \<Rightarrow> int \<Rightarrow> IntVect" where
  "ngFFT_of d x y z = (if d = 3 then [x, y, z] else [x, z])"

definition guard_cells ::
  "WarpX \<Rightarrow> nat \<Rightarrow> int \<Rightarrow> int \<Rightarrow> int \<Rightarrow> bool \<Rightarrow> int \<Rightarrow> IntVect \<times> IntVect \<times> IntVect" where
  "guard_cells warpx d nox_fft noy_fft noz_fft do_nodal do_moving_window =
     (let nge = replicate d 2;
          ngb = replicate d 2;
          ngf_int = (if do_moving_window \<noteq> 0 then 2 else 0);
          ngf_int = (if maxwell_solver_id warpx = CKC then max ngf_int 1 else ngf_int);
          ngf = replicate d ngf_int
      in if maxwell_solver_id warpx = PSATD
         then (let ngFFT = (if do_nodal then ngFFT_of d nox_fft noy_fft noz_fft
                            else ngFFT_of d (c_div nox_fft 2) (c_div noy_fft 2) (c_div noz_fft 2));
                   ngFFT = IntVect_vmax ngFFT nge;
                   ngFFT = IntVect_vmax ngFFT ngb;
                   ngFFT = IntVect_vmax ngFFT ngf
               in (ngFFT, ngFFT, ngFFT))
         else (nge, ngb, ngf))"

text \<open>
  The initialisation of a macroscopic property: what the selector strings choose, and its
  effect on the field.  The field is left as allocated when neither test holds.
\<close>

datatype MacroInit = Constant real | Parsed Parser | Untouched

definition apply_MacroInit :: "MacroscopicProperties \<Rightarrow> int \<Rightarrow> MacroInit \<Rightarrow> MultiFab \<Rightarrow> MultiFab" where
  "apply_MacroInit mp lev a mf =
     (case a of
        Constant v \<Rightarrow> setVal_all mf v
      | Parsed p \<Rightarrow> InitializeMacroMultiFabUsingParser mp mf p lev
      | Untouched \<Rightarrow> mf)"

text \<open>Fine patch, lines 543 to 564.\<close>

definition sigma_fp_init :: "MacroscopicProperties \<Rightarrow> MacroInit" where
  "sigma_fp_init mp =
     (if m_sigma_s mp = ''constant'' then Constant (m_sigma mp)
      else if m_sigma_s mp = ''parse_sigma_function'' then Parsed (m_sigma_parser mp)
      else Untouched)"

definition eps_fp_init :: "MacroscopicProperties \<Rightarrow> MacroInit" where
  "eps_fp_init mp =
     (if m_epsilon_s mp = ''constant'' then Constant (m_epsilon mp)
      else if m_epsilon_s mp = ''parse_epsilon_function'' then Parsed (m_epsilon_parser mp)
      else Untouched)"

definition mu_fp_init :: "MacroscopicProperties \<Rightarrow> MacroInit" where
  "mu_fp_init mp =
     (if m_mu_s mp = ''constant'' then Constant (m_mu mp)
      else if m_mu_s mp = ''parse_mu_function'' then Parsed (m_mu_parser mp)
      else Untouched)"

text \<open>Coarse patch, lines 693 to 714.\<close>

definition sigma_cp_init :: "MacroscopicProperties \<Rightarrow> MacroInit" where
  "sigma_cp_init mp =
     (if m_sigma_s mp = ''constant'' then Constant (m_sigma mp)
      else if m_sigma_s mp = ''parse_sigma_function'' then Parsed (m_sigma_parser mp)
      else Untouched)"

definition eps_cp_init :: "MacroscopicProperties \<Rightarrow> MacroInit" where
  "eps_cp_init mp =
     (if m_epsilon_s mp = ''constant'' then Constant (m_epsilon mp)
      else if m_epsilon_s mp = ''parse_epsilon_function'' then Parsed (m_epsilon_parser mp)
      else Untouched)"

definition mu_cp_init :: "MacroscopicProperties \<Rightarrow> MacroInit" where
  "mu_cp_init mp =
     (if m_mu_s mp = ''constant'' then Constant (m_mu mp)
      else if m_sigma_s mp = ''parse_mu_function'' then Parsed (m_mu_parser mp)
      else Untouched)"

text \<open>
  A field of the layer on the block set \<open>ba\<close> converted to an index type, set to zero;
  and a macroscopic property on the cell-centred block set.
\<close>

definition zero_field :: "FArrayBox \<Rightarrow> Box list \<Rightarrow> IntVect \<Rightarrow> nat \<Rightarrow> IntVect \<Rightarrow> MultiFab option" where
  "zero_field uninit ba typ ncomp ng =
     Some (setVal_all (MultiFab_new uninit (map (\<lambda>b. convert b typ) ba) ncomp ng) 0)"

definition macro_field ::
  "FArrayBox \<Rightarrow> WarpX \<Rightarrow> int \<Rightarrow> MacroInit \<Rightarrow> Box list \<Rightarrow> IntVect \<Rightarrow> MultiFab option" where
  "macro_field uninit warpx lev a ba ng =
     (if em_solver_medium warpx = Macroscopic
      then Some (apply_MacroInit (m_macroscopic_properties warpx) lev a (MultiFab_new uninit ba 1 ng))
      else None)"

text \<open>
  The constructor of \<open>MultiSigmaBox\<close> is handed to the model as \<open>new_sigba\<close>, called with
  the blocks of the layer, the interior blocks, the cell size, \<open>ncell\<close> and \<open>delta\<close>.  The
  spectral solver a PSATD build creates has no counterpart in the model.
\<close>

type_synonym MultiSigmaBox_new = "Box list \<Rightarrow> Box list \<Rightarrow> real list \<Rightarrow> int \<Rightarrow> int \<Rightarrow> MultiSigmaBox"

text \<open>Lines 625 to 774: the coarse patch, when \<open>cgeom\<close> is not null.\<close>

definition PML_coarse ::
  "WarpX \<Rightarrow> MultiSigmaBox_new \<Rightarrow> FArrayBox \<Rightarrow> int \<Rightarrow> Box list \<Rightarrow> Geometry \<Rightarrow> int \<Rightarrow> int \<Rightarrow> IntVect \<Rightarrow>
   nat \<Rightarrow> IntVect \<Rightarrow> IntVect \<Rightarrow> IntVect \<Rightarrow> int \<Rightarrow> int \<Rightarrow> IntVect \<Rightarrow> IntVect \<Rightarrow> PML \<Rightarrow> error + PML" where
  "PML_coarse warpx new_sigba uninit lev grid_ba cgeom ncell delta ref_ratio ncomp nge ngb ngf
     do_dive_cleaning do_pml_in_domain do_pml_Lo do_pml_Hi pml =
     (let d = length (Domain cgeom);
          nge = (if maxwell_solver_id warpx \<noteq> PSATD then replicate d 1 else nge);
          ngb = (if maxwell_solver_id warpx \<noteq> PSATD then replicate d 1 else ngb);
          grid_cba = map (\<lambda>b. coarsen b ref_ratio) grid_ba;
          grid_cba_reduced =
            reduced cgeom (\<lambda>idim. c_div (- ncell) (ref_ratio ! idim)) do_pml_Lo do_pml_Hi grid_cba;
          mp = m_macroscopic_properties warpx
      in case (if do_pml_in_domain \<noteq> 0
               then MakeBoxArray cgeom grid_cba_reduced (c_div ncell (ref_ratio ! 0))
                      do_pml_in_domain do_pml_Lo do_pml_Hi
               else MakeBoxArray cgeom grid_cba ncell do_pml_in_domain do_pml_Lo do_pml_Hi) of
           Inl e \<Rightarrow> Inl e
         | Inr cba \<Rightarrow>
             if maxwell_solver_id warpx = PSATD \<and> \<not> WARPX_USE_PSATD warpx then Inl PSATDNotBuilt
             else Inr (pml
               \<lparr>pml_E_cp := map (\<lambda>i. zero_field uninit cba (Efield_cp_ixType warpx ! i) ncomp nge) [0, 1, 2],
                pml_B_cp := map (\<lambda>i. zero_field uninit cba (Bfield_cp_ixType warpx ! i) 2 ngb) [0, 1, 2],
                pml_j_cp := map (\<lambda>i. zero_field uninit cba (current_cp_ixType warpx ! i) 1 ngb) [0, 1, 2],
                pml_F_cp := (if do_dive_cleaning \<noteq> 0
                             then zero_field uninit cba (replicate d 1) 3 ngf else None),
                pml_eps_cp := macro_field uninit warpx lev (eps_cp_init mp) cba nge,
                pml_mu_cp := macro_field uninit warpx lev (mu_cp_init mp) cba nge,
                pml_sigma_cp := macro_field uninit warpx lev (sigma_cp_init mp) cba nge,
                sigba_cp := Some (if do_pml_in_domain \<noteq> 0
                                  then new_sigba cba grid_cba_reduced (CellSize cgeom)
                                         (c_div ncell (ref_ratio ! 0)) (c_div delta (ref_ratio ! 0))
                                  else new_sigba cba grid_cba (CellSize cgeom) ncell delta)\<rparr>))"

text \<open>
  \<open>PML::PML\<close>.  An assertion that fails ends the program: the constructor then yields the
  error.  With an empty block set it returns at once, \<open>m_ok\<close> false and every pointer null.
\<close>

definition PML_new ::
  "WarpX \<Rightarrow> MultiSigmaBox_new \<Rightarrow> FArrayBox \<Rightarrow> int \<Rightarrow> Box list \<Rightarrow> Geometry \<Rightarrow> Geometry option \<Rightarrow>
   int \<Rightarrow> int \<Rightarrow> IntVect \<Rightarrow> int \<Rightarrow> int \<Rightarrow> int \<Rightarrow> bool \<Rightarrow> int \<Rightarrow> int \<Rightarrow> int \<Rightarrow> IntVect \<Rightarrow> IntVect \<Rightarrow>
   error + PML" where
  "PML_new warpx new_sigba uninit lev grid_ba geom cgeom ncell delta ref_ratio
     nox_fft noy_fft noz_fft do_nodal do_dive_cleaning do_moving_window do_pml_in_domain
     do_pml_Lo do_pml_Hi =
     (case fine_ba geom grid_ba ncell do_pml_in_domain do_pml_Lo do_pml_Hi of
        Inl e \<Rightarrow> Inl e
      | Inr ba \<Rightarrow>
          if length ba = 0 then Inr ((PML_members geom cgeom)\<lparr>m_ok := False\<rparr>)
          else
            (let d = length (Domain geom);
                 (nge, ngb, ngf) =
                    guard_cells warpx d nox_fft noy_fft noz_fft do_nodal do_moving_window;
                 ncomp = (if do_dive_cleaning \<noteq> 0 then 3 else 2);
                 mp = m_macroscopic_properties warpx;
                 pml = (PML_members geom cgeom)
                   \<lparr>m_ok := True,
                    pml_E_fp := map (\<lambda>i. zero_field uninit ba (Efield_fp_ixType warpx ! i) ncomp nge) [0, 1, 2],
                    pml_B_fp := map (\<lambda>i. zero_field uninit ba (Bfield_fp_ixType warpx ! i) 2 ngb) [0, 1, 2],
                    pml_j_fp := map (\<lambda>i. zero_field uninit ba (current_fp_ixType warpx ! i) 1 ngb) [0, 1, 2],
                    pml_F_fp := (if do_dive_cleaning \<noteq> 0
                                 then zero_field uninit ba (replicate d 1) 3 ngf else None),
                    pml_eps_fp := macro_field uninit warpx lev (eps_fp_init mp) ba nge,
                    pml_mu_fp := macro_field uninit warpx lev (mu_fp_init mp) ba nge,
                    pml_sigma_fp := macro_field uninit warpx lev (sigma_fp_init mp) ba nge,
                    sigba_fp := Some (if do_pml_in_domain \<noteq> 0
                                      then new_sigba ba
                                             (grid_ba_reduced geom grid_ba ncell do_pml_Lo do_pml_Hi)
                                             (CellSize geom) ncell delta
                                      else new_sigba ba grid_ba (CellSize geom) ncell delta)\<rparr>
             in if maxwell_solver_id warpx = PSATD \<and> \<not> WARPX_USE_PSATD warpx then Inl PSATDNotBuilt
                else case cgeom of
                       None \<Rightarrow> Inr pml
                     | Some cg \<Rightarrow>
                         PML_coarse warpx new_sigba uninit lev grid_ba cg ncell delta ref_ratio ncomp
                           nge ngb ngf do_dive_cleaning do_pml_in_domain do_pml_Lo do_pml_Hi pml))"

subsection \<open>The exchanges of the field groups\<close>

text \<open>
  The three calls of \<open>Exchange\<close> on the components of a group.  The functions test the
  first pointer of each array only; dereferencing a null pointer is the error
  \<open>NullPointer\<close>.
\<close>

fun Exchange3 ::
  "ParallelCopy_fn \<Rightarrow> FArrayBox \<Rightarrow> Geometry \<Rightarrow> int \<Rightarrow> nat list \<Rightarrow>
   MultiFab option list \<times> MultiFab option list \<Rightarrow> error + MultiFab option list \<times> MultiFab option list" where
  "Exchange3 pc uninit geom do_pml_in_domain [] (ls, rs) = Inr (ls, rs)"
| "Exchange3 pc uninit geom do_pml_in_domain (i # is) (ls, rs) =
     (case (ls ! i, rs ! i) of
        (Some l, Some r) \<Rightarrow>
          (let (l', r') = Exchange pc uninit l r geom do_pml_in_domain
           in Exchange3 pc uninit geom do_pml_in_domain is (ls[i := Some l'], rs[i := Some r']))
      | _ \<Rightarrow> Inl NullPointer)"

fun CopyToPML3 ::
  "ParallelCopy_fn \<Rightarrow> Geometry \<Rightarrow> nat list \<Rightarrow> MultiFab option list \<Rightarrow> MultiFab option list \<Rightarrow>
   error + MultiFab option list" where
  "CopyToPML3 pc geom [] ls rs = Inr ls"
| "CopyToPML3 pc geom (i # is) ls rs =
     (case (ls ! i, rs ! i) of
        (Some l, Some r) \<Rightarrow> CopyToPML3 pc geom is (ls[i := Some (CopyToPML pc l r geom)]) rs
      | _ \<Rightarrow> Inl NullPointer)"

definition with_cgeom :: "PML \<Rightarrow> (Geometry \<Rightarrow> error + 'a) \<Rightarrow> error + 'a" where
  "with_cgeom pml f = (case m_cgeom pml of None \<Rightarrow> Inl NullPointer | Some cg \<Rightarrow> f cg)"

definition ExchangeB ::
  "ParallelCopy_fn \<Rightarrow> FArrayBox \<Rightarrow> PatchType \<Rightarrow> MultiFab option list \<Rightarrow> int \<Rightarrow> PML \<Rightarrow>
   error + PML \<times> MultiFab option list" where
  "ExchangeB pc uninit patch_type Bp do_pml_in_domain pml =
     (if patch_type = fine \<and> pml_B_fp pml ! 0 \<noteq> None \<and> Bp ! 0 \<noteq> None
      then (case Exchange3 pc uninit (m_geom pml) do_pml_in_domain [0, 1, 2] (pml_B_fp pml, Bp) of
              Inl e \<Rightarrow> Inl e | Inr (ls, rs) \<Rightarrow> Inr (pml\<lparr>pml_B_fp := ls\<rparr>, rs))
      else if patch_type = coarse \<and> pml_B_cp pml ! 0 \<noteq> None \<and> Bp ! 0 \<noteq> None
      then with_cgeom pml (\<lambda>cg.
             case Exchange3 pc uninit cg do_pml_in_domain [0, 1, 2] (pml_B_cp pml, Bp) of
               Inl e \<Rightarrow> Inl e | Inr (ls, rs) \<Rightarrow> Inr (pml\<lparr>pml_B_cp := ls\<rparr>, rs))
      else Inr (pml, Bp))"

definition ExchangeE ::
  "ParallelCopy_fn \<Rightarrow> FArrayBox \<Rightarrow> PatchType \<Rightarrow> MultiFab option list \<Rightarrow> int \<Rightarrow> PML \<Rightarrow>
   error + PML \<times> MultiFab option list" where
  "ExchangeE pc uninit patch_type Ep do_pml_in_domain pml =
     (if patch_type = fine \<and> pml_E_fp pml ! 0 \<noteq> None \<and> Ep ! 0 \<noteq> None
      then (case Exchange3 pc uninit (m_geom pml) do_pml_in_domain [0, 1, 2] (pml_E_fp pml, Ep) of
              Inl e \<Rightarrow> Inl e | Inr (ls, rs) \<Rightarrow> Inr (pml\<lparr>pml_E_fp := ls\<rparr>, rs))
      else if patch_type = coarse \<and> pml_E_cp pml ! 0 \<noteq> None \<and> Ep ! 0 \<noteq> None
      then with_cgeom pml (\<lambda>cg.
             case Exchange3 pc uninit cg do_pml_in_domain [0, 1, 2] (pml_E_cp pml, Ep) of
               Inl e \<Rightarrow> Inl e | Inr (ls, rs) \<Rightarrow> Inr (pml\<lparr>pml_E_cp := ls\<rparr>, rs))
      else Inr (pml, Ep))"

definition CopyJtoPMLs ::
  "ParallelCopy_fn \<Rightarrow> PatchType \<Rightarrow> MultiFab option list \<Rightarrow> PML \<Rightarrow> error + PML" where
  "CopyJtoPMLs pc patch_type jp pml =
     (if patch_type = fine \<and> pml_j_fp pml ! 0 \<noteq> None \<and> jp ! 0 \<noteq> None
      then (case CopyToPML3 pc (m_geom pml) [0, 1, 2] (pml_j_fp pml) jp of
              Inl e \<Rightarrow> Inl e | Inr ls \<Rightarrow> Inr (pml\<lparr>pml_j_fp := ls\<rparr>))
      else if patch_type = coarse \<and> pml_j_cp pml ! 0 \<noteq> None \<and> jp ! 0 \<noteq> None
      then with_cgeom pml (\<lambda>cg.
             case CopyToPML3 pc cg [0, 1, 2] (pml_j_cp pml) jp of
               Inl e \<Rightarrow> Inl e | Inr ls \<Rightarrow> Inr (pml\<lparr>pml_j_cp := ls\<rparr>))
      else Inr pml)"

definition ExchangeF ::
  "ParallelCopy_fn \<Rightarrow> FArrayBox \<Rightarrow> PatchType \<Rightarrow> MultiFab option \<Rightarrow> int \<Rightarrow> PML \<Rightarrow>
   error + PML \<times> MultiFab option" where
  "ExchangeF pc uninit patch_type Fp do_pml_in_domain pml =
     (case (patch_type, pml_F_fp pml, pml_F_cp pml, Fp) of
        (fine, Some l, _, Some r) \<Rightarrow>
          (let (l', r') = Exchange pc uninit l r (m_geom pml) do_pml_in_domain
           in Inr (pml\<lparr>pml_F_fp := Some l'\<rparr>, Some r'))
      | (coarse, _, Some l, Some r) \<Rightarrow>
          with_cgeom pml (\<lambda>cg.
            let (l', r') = Exchange pc uninit l r cg do_pml_in_domain
            in Inr (pml\<lparr>pml_F_cp := Some l'\<rparr>, Some r'))
      | _ \<Rightarrow> Inr (pml, Fp))"

section \<open>Auxiliary notions for the proofs\<close>

text \<open>
  \<open>fill_body\<close> is the common shape of the loop bodies of \<open>FillLo\<close> and \<open>FillHi\<close>;
  \<open>filled v lo b e xs ys\<close> says that \<open>ys\<close> is \<open>xs\<close> with the entries for the global
  indices \<open>b \<le> i < e\<close> replaced by \<open>v i\<close>, where entry \<open>k\<close> stands for index \<open>k + lo\<close>.
\<close>

definition fill_body ::
  "(int \<Rightarrow> real) \<Rightarrow> (int \<Rightarrow> real) \<Rightarrow> (int \<Rightarrow> real) \<Rightarrow> (int \<Rightarrow> real) \<Rightarrow>
   int \<Rightarrow> int \<Rightarrow> int \<Rightarrow> int \<Rightarrow> profiles \<Rightarrow> error + profiles" where
  "fill_body v1 v2 v3 v4 ohi slo sslo i st =
     (case st of (a, b, c, d) \<Rightarrow>
      case put a (i - slo) (v1 i) of Inl e \<Rightarrow> Inl e | Inr a' \<Rightarrow>
      case put b (i - slo) (v2 i) of Inl e \<Rightarrow> Inl e | Inr b' \<Rightarrow>
      if i \<le> ohi + 1 then
        case put c (i - sslo) (v3 i) of Inl e \<Rightarrow> Inl e | Inr c' \<Rightarrow>
        case put d (i - sslo) (v4 i) of Inl e \<Rightarrow> Inl e | Inr d' \<Rightarrow>
        Inr (a', b', c', d')
      else Inr (a', b', c, d))"

definition filled :: "(int \<Rightarrow> real) \<Rightarrow> int \<Rightarrow> int \<Rightarrow> int \<Rightarrow> real list \<Rightarrow> real list \<Rightarrow> bool" where
  "filled v lo b0 e0 xs ys \<longleftrightarrow>
     length ys = length xs \<and>
     (\<forall>k<length xs. ys ! k = (if b0 \<le> int k + lo \<and> int k + lo < e0 then v (int k + lo) else xs ! k))"

text \<open>\<open>holds s lo hi\<close>: the vector has an entry for each of the global indices \<open>lo..hi\<close>.\<close>

definition holds :: "Sigma \<Rightarrow> int \<Rightarrow> int \<Rightarrow> bool" where
  "holds s lo hi \<longleftrightarrow> m_lo s \<le> lo \<and> hi - m_lo s < int (length (data s))"

text \<open>A vector of four zeros for the indices \<open>0..3\<close>, for the examples.\<close>

definition zeros4 :: Sigma where
  "zeros4 = \<lparr>m_lo = 0, m_hi = 3, data = [0, 0, 0, 0]\<rparr>"

text \<open>
  The state of \<open>SigmaBox::ComputePMLFactorsB\<close> after the loop has run for the indices below
  \<open>lv\<close> on an axis: the first \<open>lv\<close> factors are new, the others old.  \<open>stateB\<close> gives
  every axis its own level; \<open>newE\<close> and \<open>stateE\<close> are the same for
  \<open>SigmaBox::ComputePMLFactorsE\<close>.
\<close>

definition newB :: "real list \<Rightarrow> real \<Rightarrow> nat \<Rightarrow> nat \<Rightarrow> SigmaAxis \<Rightarrow> SigmaAxis" where
  "newB dx dt lv idim ax =
     ax\<lparr>sigma_star_fac := (sigma_star_fac ax)\<lparr>data :=
            map (\<lambda>s. exp (- s * dt)) (take lv (data (sigma_star ax)))
            @ drop lv (data (sigma_star_fac ax))\<rparr>,
        sigma_star_cumsum_fac := (sigma_star_cumsum_fac ax)\<lparr>data :=
            map (\<lambda>s. exp (- s * dx ! idim)) (take lv (data (sigma_star_cumsum ax)))
            @ drop lv (data (sigma_star_cumsum_fac ax))\<rparr>\<rparr>"

definition stateB :: "real list \<Rightarrow> real \<Rightarrow> (nat \<Rightarrow> nat) \<Rightarrow> SigmaBox \<Rightarrow> SigmaBox" where
  "stateB dx dt lv sb = map (\<lambda>k. newB dx dt (lv k) k (sb ! k)) [0..<length sb]"

definition newE :: "real list \<Rightarrow> real \<Rightarrow> nat \<Rightarrow> nat \<Rightarrow> SigmaAxis \<Rightarrow> SigmaAxis" where
  "newE dx dt lv idim ax =
     ax\<lparr>sigma_fac := (sigma_fac ax)\<lparr>data :=
            map (\<lambda>s. exp (- s * dt)) (take lv (data (sigma ax)))
            @ drop lv (data (sigma_fac ax))\<rparr>,
        sigma_cumsum_fac := (sigma_cumsum_fac ax)\<lparr>data :=
            map (\<lambda>s. exp (- s * dx ! idim)) (take lv (data (sigma_cumsum ax)))
            @ drop lv (data (sigma_cumsum_fac ax))\<rparr>\<rparr>"

definition stateE :: "real list \<Rightarrow> real \<Rightarrow> (nat \<Rightarrow> nat) \<Rightarrow> SigmaBox \<Rightarrow> SigmaBox" where
  "stateE dx dt lv sb = map (\<lambda>k. newE dx dt (lv k) k (sb ! k)) [0..<length sb]"

text \<open>
  What a fresh computation leaves on a block: on every axis the factors of the star
  profiles (\<open>doneB\<close>) or of the primary profiles (\<open>doneE\<close>), nothing else changed.
\<close>

definition doneB :: "real list \<Rightarrow> real \<Rightarrow> SigmaBox \<Rightarrow> SigmaBox" where
  "doneB dx dt sb =
     map (\<lambda>k. (sb ! k)\<lparr>sigma_star_fac := (sigma_star_fac (sb ! k))\<lparr>data :=
                   map (\<lambda>s. exp (- s * dt)) (data (sigma_star (sb ! k)))\<rparr>,
                 sigma_star_cumsum_fac := (sigma_star_cumsum_fac (sb ! k))\<lparr>data :=
                   map (\<lambda>s. exp (- s * dx ! k)) (data (sigma_star_cumsum (sb ! k)))\<rparr>\<rparr>)
       [0..<length sb]"

definition doneE :: "real list \<Rightarrow> real \<Rightarrow> SigmaBox \<Rightarrow> SigmaBox" where
  "doneE dx dt sb =
     map (\<lambda>k. (sb ! k)\<lparr>sigma_fac := (sigma_fac (sb ! k))\<lparr>data :=
                   map (\<lambda>s. exp (- s * dt)) (data (sigma (sb ! k)))\<rparr>,
                 sigma_cumsum_fac := (sigma_cumsum_fac (sb ! k))\<lparr>data :=
                   map (\<lambda>s. exp (- s * dx ! k)) (data (sigma_cumsum (sb ! k)))\<rparr>\<rparr>)
       [0..<length sb]"

text \<open>
  \<open>keepsB ax ax'\<close>: the factors of the star profiles (those \<open>ComputePMLFactorsB\<close> writes)
  are the same in \<open>ax'\<close> as in \<open>ax\<close>; \<open>keepsE\<close> is the same for the factors of the
  primary profiles.
\<close>

definition keepsB :: "SigmaAxis \<Rightarrow> SigmaAxis \<Rightarrow> bool" where
  "keepsB ax ax' \<longleftrightarrow>
     sigma_star_fac ax' = sigma_star_fac ax \<and> sigma_star_cumsum_fac ax' = sigma_star_cumsum_fac ax"

definition keepsE :: "SigmaAxis \<Rightarrow> SigmaAxis \<Rightarrow> bool" where
  "keepsE ax ax' \<longleftrightarrow>
     sigma_fac ax' = sigma_fac ax \<and> sigma_cumsum_fac ax' = sigma_cumsum_fac ax"

text \<open>A layer of one block with one axis of two nodes, all profiles and factors zero.\<close>

definition zeros2 :: Sigma where
  "zeros2 = \<lparr>m_lo = 0, m_hi = 1, data = [0, 0]\<rparr>"

definition axis0 :: SigmaAxis where
  "axis0 = \<lparr>sigma = zeros2, sigma_cumsum = zeros2, sigma_star = zeros2,
            sigma_star_cumsum = zeros2, sigma_fac = zeros2, sigma_cumsum_fac = zeros2,
            sigma_star_fac = zeros2, sigma_star_cumsum_fac = zeros2\<rparr>"

definition msb0 :: MultiSigmaBox where
  "msb0 = \<lparr>sboxes = [[axis0]], dt_B = 0, dt_E = 0\<rparr>"



text \<open>A square domain of 8 by 8 cells without periodic axes, for the examples.\<close>

definition square8 :: Geometry where
  "square8 = \<lparr>Domain = [(0, 7), (0, 7)], isPeriodic = [False, False], CellSize = [1, 1]\<rparr>"

text \<open>
  The same domain, periodic along both axes; macroscopic properties whose permeability is
  given by an expression while the conductivity is a constant; and a simulation with the
  Yee solver in a macroscopic medium.
\<close>

definition periodic8 :: Geometry where
  "periodic8 = \<lparr>Domain = [(0, 7), (0, 7)], isPeriodic = [True, True], CellSize = [1, 1]\<rparr>"

definition props0 :: MacroscopicProperties where
  "props0 = \<lparr>m_sigma_s = ''constant'', m_epsilon_s = ''constant'', m_mu_s = ''parse_mu_function'',
     m_sigma = 0, m_epsilon = 1, m_mu = 1,
     m_sigma_parser = ''0'', m_epsilon_parser = ''1'', m_mu_parser = ''1 + x'',
     InitializeMacroMultiFabUsingParser = (\<lambda>mf p lev. setVal_all mf 7)\<rparr>"

definition warpx0 :: WarpX where
  "warpx0 = \<lparr>maxwell_solver_id = Yee, em_solver_medium = Macroscopic,
     m_macroscopic_properties = props0,
     Efield_fp_ixType = [[0, 1], [1, 1], [1, 0]],
     Bfield_fp_ixType = [[1, 0], [0, 0], [0, 1]],
     current_fp_ixType = [[0, 1], [1, 1], [1, 0]],
     Efield_cp_ixType = [[0, 1], [1, 1], [1, 0]],
     Bfield_cp_ixType = [[1, 0], [0, 0], [0, 1]],
     current_cp_ixType = [[0, 1], [1, 1], [1, 0]],
     WARPX_USE_PSATD = False\<rparr>"

text \<open>
  The field \<open>totpmlmf\<close> of \<open>PML::Exchange\<close>: the sum of the split components of the
  layer field on its valid cells.
\<close>

definition totpmlmf_of :: "FArrayBox \<Rightarrow> MultiFab \<Rightarrow> MultiFab" where
  "totpmlmf_of uninit pml =
     (if nComp pml = 3
      then Add (LinComb (MultiFab_new uninit (boxArray pml) 1 (IntVect_of pml 0)) 1 pml 0 1 pml 1 0 1
             (IntVect_of pml 0)) pml 2 0 1 (IntVect_of pml 0)
      else LinComb (MultiFab_new uninit (boxArray pml) 1 (IntVect_of pml 0)) 1 pml 0 1 pml 1 0 1
             (IntVect_of pml 0))"

text \<open>
  A line of 8 cells without periodic axis; an interior field with the value 5 on the block
  \<open>[0, 7]\<close> and one ghost cell; a layer field with three split components of the values
  1, 2 and 3 and two ghost cells, on the block \<open>[8, 9]\<close> outside the domain or on the
  block \<open>[6, 7]\<close> inside it.
\<close>

definition line8 :: Geometry where
  "line8 = \<lparr>Domain = [(0, 7)], isPeriodic = [False], CellSize = [1]\<rparr>"

definition interior8 :: MultiFab where
  "interior8 = \<lparr>boxArray = [[(0, 7)]], nGrowVect = [1], nComp = 1, fabs = [\<lambda>q c. 5]\<rparr>"

definition layer_out :: MultiFab where
  "layer_out = \<lparr>boxArray = [[(8, 9)]], nGrowVect = [2], nComp = 3, fabs = [\<lambda>q c. real c + 1]\<rparr>"

definition layer_in :: MultiFab where
  "layer_in = \<lparr>boxArray = [[(6, 7)]], nGrowVect = [2], nComp = 3, fabs = [\<lambda>q c. real c + 1]\<rparr>"

text \<open>
  A line of 12 cells without periodic axis, a nodal interior field on it, and a nodal layer
  field in the domain whose two blocks share the node 10: with the values 1 and 100 on the
  two blocks, and with the same values on both (the node number plus the component).
\<close>

definition line12 :: Geometry where
  "line12 = \<lparr>Domain = [(0, 11)], isPeriodic = [False], CellSize = [1]\<rparr>"

definition nodes12 :: MultiFab where
  "nodes12 = \<lparr>boxArray = [[(0, 12)]], nGrowVect = [1], nComp = 1, fabs = [\<lambda>q c. 5]\<rparr>"

definition layer_nodes :: MultiFab where
  "layer_nodes = \<lparr>boxArray = [[(8, 10)], [(10, 12)]], nGrowVect = [1], nComp = 2,
     fabs = [\<lambda>q c. 1, \<lambda>q c. 100]\<rparr>"

definition layer_nodes_same :: MultiFab where
  "layer_nodes_same = \<lparr>boxArray = [[(8, 10)], [(10, 12)]], nGrowVect = [1], nComp = 2,
     fabs = [\<lambda>q c. real_of_int (hd q) + real c, \<lambda>q c. real_of_int (hd q) + real c]\<rparr>"

section \<open>The fill routines\<close>

lemma FillLo_body_fill:
  "FillLo_body c fac glo ohi slo sslo =
   fill_body (\<lambda>i. fac * (real_of_int (glo - i))\<^sup>2)
             (\<lambda>i. fac * (real_of_int (glo - i)) ^ 3 / 3 / c)
             (\<lambda>i. fac * (real_of_int (glo - i) - 0.5)\<^sup>2)
             (\<lambda>i. fac * (real_of_int (glo - i) - 0.5) ^ 3 / 3 / c) ohi slo sslo"
  by (intro ext) (simp add: FillLo_body_def fill_body_def Let_def power2_eq_square power3_eq_cube
      split: prod.splits sum.splits)

lemma FillHi_body_fill:
  "FillHi_body c fac ghi ohi slo sslo =
   fill_body (\<lambda>i. fac * (real_of_int (i - ghi - 1))\<^sup>2)
             (\<lambda>i. fac * (real_of_int (i - ghi - 1)) ^ 3 / 3 / c)
             (\<lambda>i. fac * (real_of_int (i - ghi) - 0.5)\<^sup>2)
             (\<lambda>i. fac * (real_of_int (i - ghi) - 0.5) ^ 3 / 3 / c) ohi slo sslo"
  by (intro ext) (simp add: FillHi_body_def fill_body_def Let_def power2_eq_square power3_eq_cube
      split: prod.splits sum.splits)

lemma filled_put:
  assumes "filled v lo b0 e0 xs ys" "b0 \<le> e0" "put ys (e0 - lo) (v e0) = Inr zs"
  shows "filled v lo b0 (e0 + 1) xs zs"
proof -
  from assms(3) have r: "0 \<le> e0 - lo" "e0 - lo < int (length ys)"
    and zs: "zs = ys[nat (e0 - lo) := v e0]"
    by (auto simp: put_def split: if_splits)
  show ?thesis
    unfolding filled_def
  proof (intro conjI allI impI)
    show "length zs = length xs" using assms(1) zs by (simp add: filled_def)
  next
    fix k assume k: "k < length xs"
    show "zs ! k = (if b0 \<le> int k + lo \<and> int k + lo < e0 + 1 then v (int k + lo) else xs ! k)"
    proof (cases "k = nat (e0 - lo)")
      case True
      then have "int k + lo = e0" using r by simp
      then show ?thesis using True zs r assms(2) by simp
    next
      case False
      then have "int k + lo \<noteq> e0" using r by auto
      then show ?thesis using False zs assms(1) k by (auto simp: filled_def)
    qed
  qed
qed

lemma fill_loop:
  assumes "for_nat n (\<lambda>k. fill_body v1 v2 v3 v4 ohi slo sslo (int k + olo)) (a, b, c, d)
           = Inr (a', b', c', d')"
  shows "filled v1 slo olo (olo + int n) a a' \<and> filled v2 slo olo (olo + int n) b b' \<and>
         filled v3 sslo olo (min (olo + int n) (ohi + 2)) c c' \<and>
         filled v4 sslo olo (min (olo + int n) (ohi + 2)) d d'"
  using assms
proof (induction n arbitrary: a' b' c' d')
  case 0
  then show ?case by (simp add: filled_def)
next
  case (Suc n)
  then obtain a1 b1 c1 d1 where
    prev: "for_nat n (\<lambda>k. fill_body v1 v2 v3 v4 ohi slo sslo (int k + olo)) (a, b, c, d)
           = Inr (a1, b1, c1, d1)"
    and step: "fill_body v1 v2 v3 v4 ohi slo sslo (int n + olo) (a1, b1, c1, d1)
           = Inr (a', b', c', d')"
    by (auto split: sum.splits)
  note ih = Suc.IH[OF prev]
  from step obtain
    pa: "put a1 (olo + int n - slo) (v1 (olo + int n)) = Inr a'" and
    pb: "put b1 (olo + int n - slo) (v2 (olo + int n)) = Inr b'"
    by (auto simp: fill_body_def add.commute split: sum.splits if_splits)
  have A: "filled v1 slo olo (olo + int (Suc n)) a a'"
    using filled_put[of v1 slo olo "olo + int n" a a1 a'] pa ih
    by (simp add: add.commute add.left_commute)
  have B: "filled v2 slo olo (olo + int (Suc n)) b b'"
    using filled_put[of v2 slo olo "olo + int n" b b1 b'] pb ih
    by (simp add: add.commute add.left_commute)
  show ?case
  proof (cases "int n + olo \<le> ohi + 1")
    case True
    with step obtain
      pc: "put c1 (olo + int n - sslo) (v3 (olo + int n)) = Inr c'" and
      pd: "put d1 (olo + int n - sslo) (v4 (olo + int n)) = Inr d'"
      by (auto simp: fill_body_def add.commute split: sum.splits if_splits)
    from True have m: "min (olo + int n) (ohi + 2) = olo + int n"
      "min (olo + int (Suc n)) (ohi + 2) = olo + int n + 1" by auto
    have C: "filled v3 sslo olo (olo + int n + 1) c c'"
      using filled_put[of v3 sslo olo "olo + int n" c c1 c'] pc ih m by simp
    have D: "filled v4 sslo olo (olo + int n + 1) d d'"
      using filled_put[of v4 sslo olo "olo + int n" d d1 d'] pd ih m by simp
    show ?thesis using A B C D m by simp
  next
    case False
    with step have e: "c' = c1" "d' = d1"
      by (auto simp: fill_body_def add.commute split: sum.splits if_splits)
    from False have m: "min (olo + int n) (ohi + 2) = ohi + 2"
      "min (olo + int (Suc n)) (ohi + 2) = ohi + 2" by auto
    show ?thesis using A B ih e m by simp
  qed
qed

lemma fill_loop_succeeds:
  assumes "\<forall>i. olo \<le> i \<and> i < olo + int n \<longrightarrow>
             0 \<le> i - slo \<and> i - slo < int (length a) \<and> i - slo < int (length b) \<and>
             (i \<le> ohi + 1 \<longrightarrow> 0 \<le> i - sslo \<and> i - sslo < int (length c) \<and> i - sslo < int (length d))"
  shows "\<exists>st. for_nat n (\<lambda>k. fill_body v1 v2 v3 v4 ohi slo sslo (int k + olo)) (a, b, c, d) = Inr st"
  using assms
proof (induction n)
  case 0
  then show ?case by simp
next
  case (Suc n)
  then obtain a1 b1 c1 d1 where
    prev: "for_nat n (\<lambda>k. fill_body v1 v2 v3 v4 ohi slo sslo (int k + olo)) (a, b, c, d)
           = Inr (a1, b1, c1, d1)"
    by fastforce
  from fill_loop[OF prev] have len: "length a1 = length a" "length b1 = length b"
    "length c1 = length c" "length d1 = length d"
    by (simp_all add: filled_def)
  from Suc.prems have r: "0 \<le> int n + olo - slo" "int n + olo - slo < int (length a)"
    "int n + olo - slo < int (length b)"
    "int n + olo \<le> ohi + 1 \<longrightarrow> 0 \<le> int n + olo - sslo \<and>
       int n + olo - sslo < int (length c) \<and> int n + olo - sslo < int (length d)"
    by (simp_all add: add.commute)
  have "\<exists>st. fill_body v1 v2 v3 v4 ohi slo sslo (int n + olo) (a1, b1, c1, d1) = Inr st"
    using len r by (simp add: fill_body_def put_def)
  then show ?case
    using prev by simp
qed

text \<open>The loop of a fill call runs over the indices \<open>olo, ..., ohi + 1\<close>.\<close>

lemma filled_cong_range:
  "(\<And>x. (b \<le> x \<and> x < e) = (b \<le> x \<and> x < e')) \<Longrightarrow> filled v lo b e xs ys = filled v lo b e' xs ys"
  by (simp add: filled_def)

lemma fill_range:
  "filled v lo olo (olo + int (nat (ohi + 1 - olo + 1))) xs ys \<longleftrightarrow> filled v lo olo (ohi + 2) xs ys"
  "filled v lo olo (min (olo + int (nat (ohi + 1 - olo + 1))) (ohi + 2)) xs ys
     \<longleftrightarrow> filled v lo olo (ohi + 2) xs ys"
  by (rule filled_cong_range, arith)+

lemma fill_call:
  assumes "ParallelFor (ohi + 1 - olo + 1) (\<lambda>i. fill_body v1 v2 v3 v4 ohi slo sslo (i + olo))
             (a, b, c, d) = Inr (a', b', c', d')"
  shows "filled v1 slo olo (ohi + 2) a a' \<and> filled v2 slo olo (ohi + 2) b b' \<and>
         filled v3 sslo olo (ohi + 2) c c' \<and> filled v4 sslo olo (ohi + 2) d d'"
proof -
  from assms have "for_nat (nat (ohi + 1 - olo + 1))
      (\<lambda>k. fill_body v1 v2 v3 v4 ohi slo sslo (int k + olo)) (a, b, c, d) = Inr (a', b', c', d')"
    by (simp only: ParallelFor_def)
  from fill_loop[OF this] show ?thesis
    by (simp only: fill_range)
qed

lemma fill_call_succeeds:
  assumes "slo \<le> olo" "ohi + 1 - slo < int (length a)" "ohi + 1 - slo < int (length b)"
    "sslo \<le> olo" "ohi + 1 - sslo < int (length c)" "ohi + 1 - sslo < int (length d)"
  shows "\<exists>st. ParallelFor (ohi + 1 - olo + 1) (\<lambda>i. fill_body v1 v2 v3 v4 ohi slo sslo (i + olo))
             (a, b, c, d) = Inr st"
proof -
  have "\<forall>i. olo \<le> i \<and> i < olo + int (nat (ohi + 1 - olo + 1)) \<longrightarrow>
             0 \<le> i - slo \<and> i - slo < int (length a) \<and> i - slo < int (length b) \<and>
             (i \<le> ohi + 1 \<longrightarrow> 0 \<le> i - sslo \<and> i - sslo < int (length c) \<and> i - sslo < int (length d))"
    using assms by (intro allI impI) arith
  from fill_loop_succeeds[OF this] show ?thesis
    by (simp only: ParallelFor_def)
qed

lemma FillLo_filled:
  assumes "FillLo c idim sg sgc sgs sgsc overlap grid fac = Inr (s, sc, ss, ssc)"
  shows "s = sg\<lparr>data := data s\<rparr> \<and> sc = sgc\<lparr>data := data sc\<rparr> \<and>
     ss = sgs\<lparr>data := data ss\<rparr> \<and> ssc = sgsc\<lparr>data := data ssc\<rparr> \<and>
     filled (\<lambda>i. fac * (real_of_int (smallEnd grid idim - i))\<^sup>2) (m_lo sg)
       (smallEnd overlap idim) (bigEnd overlap idim + 2) (data sg) (data s) \<and>
     filled (\<lambda>i. fac * (real_of_int (smallEnd grid idim - i)) ^ 3 / 3 / c) (m_lo sg)
       (smallEnd overlap idim) (bigEnd overlap idim + 2) (data sgc) (data sc) \<and>
     filled (\<lambda>i. fac * (real_of_int (smallEnd grid idim - i) - 0.5)\<^sup>2) (m_lo sgs)
       (smallEnd overlap idim) (bigEnd overlap idim + 2) (data sgs) (data ss) \<and>
     filled (\<lambda>i. fac * (real_of_int (smallEnd grid idim - i) - 0.5) ^ 3 / 3 / c) (m_lo sgs)
       (smallEnd overlap idim) (bigEnd overlap idim + 2) (data sgsc) (data ssc)"
proof -
  let ?run = "ParallelFor (bigEnd overlap idim + 1 - smallEnd overlap idim + 1)
            (\<lambda>i. FillLo_body c fac (smallEnd grid idim) (bigEnd overlap idim) (m_lo sg) (m_lo sgs)
                   (i + smallEnd overlap idim))
            (data sg, data sgc, data sgs, data sgsc)"
  from assms obtain st where run: "?run = Inr st"
    and r: "store sg sgc sgs sgsc st = (s, sc, ss, ssc)"
    unfolding FillLo_def Let_def by (cases ?run) simp_all
  obtain a b c' d where st: "st = (a, b, c', d)" by (cases st)
  from r st have res: "s = sg\<lparr>data := a\<rparr>" "sc = sgc\<lparr>data := b\<rparr>"
    "ss = sgs\<lparr>data := c'\<rparr>" "ssc = sgsc\<lparr>data := d\<rparr>"
    by (simp_all add: store_def)
  from fill_call[OF run[unfolded st FillLo_body_fill]] res show ?thesis by simp
qed

lemma FillHi_filled:
  assumes "FillHi c idim sg sgc sgs sgsc overlap grid fac = Inr (s, sc, ss, ssc)"
  shows "s = sg\<lparr>data := data s\<rparr> \<and> sc = sgc\<lparr>data := data sc\<rparr> \<and>
     ss = sgs\<lparr>data := data ss\<rparr> \<and> ssc = sgsc\<lparr>data := data ssc\<rparr> \<and>
     filled (\<lambda>i. fac * (real_of_int (i - bigEnd grid idim - 1))\<^sup>2) (m_lo sg)
       (smallEnd overlap idim) (bigEnd overlap idim + 2) (data sg) (data s) \<and>
     filled (\<lambda>i. fac * (real_of_int (i - bigEnd grid idim - 1)) ^ 3 / 3 / c) (m_lo sg)
       (smallEnd overlap idim) (bigEnd overlap idim + 2) (data sgc) (data sc) \<and>
     filled (\<lambda>i. fac * (real_of_int (i - bigEnd grid idim) - 0.5)\<^sup>2) (m_lo sgs)
       (smallEnd overlap idim) (bigEnd overlap idim + 2) (data sgs) (data ss) \<and>
     filled (\<lambda>i. fac * (real_of_int (i - bigEnd grid idim) - 0.5) ^ 3 / 3 / c) (m_lo sgs)
       (smallEnd overlap idim) (bigEnd overlap idim + 2) (data sgsc) (data ssc)"
proof -
  let ?run = "ParallelFor (bigEnd overlap idim + 1 - smallEnd overlap idim + 1)
            (\<lambda>i. FillHi_body c fac (bigEnd grid idim) (bigEnd overlap idim) (m_lo sg) (m_lo sgs)
                   (i + smallEnd overlap idim))
            (data sg, data sgc, data sgs, data sgsc)"
  from assms obtain st where run: "?run = Inr st"
    and r: "store sg sgc sgs sgsc st = (s, sc, ss, ssc)"
    unfolding FillHi_def Let_def by (cases ?run) simp_all
  obtain a b c' d where st: "st = (a, b, c', d)" by (cases st)
  from r st have res: "s = sg\<lparr>data := a\<rparr>" "sc = sgc\<lparr>data := b\<rparr>"
    "ss = sgs\<lparr>data := c'\<rparr>" "ssc = sgsc\<lparr>data := d\<rparr>"
    by (simp_all add: store_def)
  from fill_call[OF run[unfolded st FillHi_body_fill]] res show ?thesis by simp
qed

lemma FillLo_succeeds:
  assumes "holds sg (smallEnd overlap idim) (bigEnd overlap idim + 1)"
    "holds sgs (smallEnd overlap idim) (bigEnd overlap idim + 1)"
    "length (data sgc) = length (data sg)" "length (data sgsc) = length (data sgs)"
  shows "\<exists>r. FillLo c idim sg sgc sgs sgsc overlap grid fac = Inr r"
proof -
  have "\<exists>st. ParallelFor (bigEnd overlap idim + 1 - smallEnd overlap idim + 1)
            (\<lambda>i. FillLo_body c fac (smallEnd grid idim) (bigEnd overlap idim) (m_lo sg) (m_lo sgs)
                   (i + smallEnd overlap idim))
            (data sg, data sgc, data sgs, data sgsc) = Inr st"
    unfolding FillLo_body_fill
    by (rule fill_call_succeeds) (use assms in \<open>simp_all add: holds_def\<close>)
  then obtain st where "ParallelFor (bigEnd overlap idim + 1 - smallEnd overlap idim + 1)
            (\<lambda>i. FillLo_body c fac (smallEnd grid idim) (bigEnd overlap idim) (m_lo sg) (m_lo sgs)
                   (i + smallEnd overlap idim))
            (data sg, data sgc, data sgs, data sgsc) = Inr st" ..
  then show ?thesis by (simp add: FillLo_def Let_def store_def split: prod.splits)
qed

lemma FillHi_succeeds:
  assumes "holds sg (smallEnd overlap idim) (bigEnd overlap idim + 1)"
    "holds sgs (smallEnd overlap idim) (bigEnd overlap idim + 1)"
    "length (data sgc) = length (data sg)" "length (data sgsc) = length (data sgs)"
  shows "\<exists>r. FillHi c idim sg sgc sgs sgsc overlap grid fac = Inr r"
proof -
  have "\<exists>st. ParallelFor (bigEnd overlap idim + 1 - smallEnd overlap idim + 1)
            (\<lambda>i. FillHi_body c fac (bigEnd grid idim) (bigEnd overlap idim) (m_lo sg) (m_lo sgs)
                   (i + smallEnd overlap idim))
            (data sg, data sgc, data sgs, data sgsc) = Inr st"
    unfolding FillHi_body_fill
    by (rule fill_call_succeeds) (use assms in \<open>simp_all add: holds_def\<close>)
  then obtain st where "ParallelFor (bigEnd overlap idim + 1 - smallEnd overlap idim + 1)
            (\<lambda>i. FillHi_body c fac (bigEnd grid idim) (bigEnd overlap idim) (m_lo sg) (m_lo sgs)
                   (i + smallEnd overlap idim))
            (data sg, data sgc, data sgs, data sgsc) = Inr st" ..
  then show ?thesis by (simp add: FillHi_def Let_def store_def split: prod.splits)
qed

lemma filled_at:
  assumes "filled v (m_lo s) b0 e0 (data s) a" "b0 \<le> i" "i < e0" "holds s b0 (e0 - 1)"
  shows "Sigma_at (s\<lparr>data := a\<rparr>) i = v i"
proof -
  have k: "nat (i - m_lo s) < length (data s)" "int (nat (i - m_lo s)) + m_lo s = i"
    using assms(2-4) by (auto simp: holds_def)
  from assms(1) k(1) have "a ! nat (i - m_lo s) =
     (if b0 \<le> int (nat (i - m_lo s)) + m_lo s \<and> int (nat (i - m_lo s)) + m_lo s < e0
      then v (int (nat (i - m_lo s)) + m_lo s) else data s ! nat (i - m_lo s))"
    unfolding filled_def by blast
  then show ?thesis using k(2) assms(2,3) by (simp add: Sigma_at_def)
qed


lemma holds_same:
  "holds s lo hi \<Longrightarrow> m_lo t = m_lo s \<Longrightarrow> length (data t) = length (data s) \<Longrightarrow> holds t lo hi"
  by (simp add: holds_def)

lemma FillLo_eval:
  "FillLo 1 0 zeros4 zeros4 zeros4 zeros4 [(0, 1)] [(5, 9)] 24 =
     Inr (zeros4\<lparr>data := [600, 384, 216, 0]\<rparr>, zeros4\<lparr>data := [1000, 512, 216, 0]\<rparr>,
          zeros4\<lparr>data := [486, 294, 150, 0]\<rparr>, zeros4\<lparr>data := [729, 343, 125, 0]\<rparr>)"
  by (simp add: FillLo_def ParallelFor_def FillLo_body_def put_def smallEnd_def bigEnd_def
      zeros4_def store_def Let_def eval_nat_numeral)

lemma FillHi_eval:
  "FillHi 1 0 zeros4 zeros4 zeros4 zeros4 [(0, 1)] [(-9, -1)] 24 =
     Inr (zeros4\<lparr>data := [0, 24, 96, 0]\<rparr>, zeros4\<lparr>data := [0, 8, 64, 0]\<rparr>,
          zeros4\<lparr>data := [6, 54, 150, 0]\<rparr>, zeros4\<lparr>data := [1, 27, 125, 0]\<rparr>)"
  by (simp add: FillHi_def ParallelFor_def FillHi_body_def put_def smallEnd_def bigEnd_def
      zeros4_def store_def Let_def eval_nat_numeral)


section \<open>The decay factors\<close>

lemma take_drop_step:
  assumes "i < length src" "length old = length src"
  shows "(map f (take i src) @ drop i old)[i := f (src ! i)] = map f (take (Suc i) src) @ drop (Suc i) old"
proof (rule nth_equalityI)
  show "length ((map f (take i src) @ drop i old)[i := f (src ! i)])
      = length (map f (take (Suc i) src) @ drop (Suc i) old)"
    using assms by simp
next
  fix k assume "k < length ((map f (take i src) @ drop i old)[i := f (src ! i)])"
  then have k: "k < length src" using assms by simp
  show "(map f (take i src) @ drop i old)[i := f (src ! i)] ! k
      = (map f (take (Suc i) src) @ drop (Suc i) old) ! k"
  proof (cases "k = i")
    case True
    then show ?thesis using assms by (simp add: nth_append)
  next
    case False
    then show ?thesis using assms k by (auto simp: nth_append)
  qed
qed

lemma take_drop_done:
  assumes "length src \<le> i" "length old = length src"
  shows "map f (take i src) @ drop i old = map f src"
  using assms by simp

lemma foldr_max_ge: "x \<in> set xs \<Longrightarrow> x \<le> foldr max xs (m::int)"
  by (induction xs) auto

lemma for_boxes_map:
  assumes "\<forall>b\<in>set bs. f b = Inr (g b)"
  shows "for_boxes f bs = Inr (map g bs)"
  using assms by (induction bs) simp_all

lemma stateB_length [simp]: "length (stateB dx dt lv sb) = length sb"
  by (simp add: stateB_def)

lemma stateB_nth: "a < length sb \<Longrightarrow> stateB dx dt lv sb ! a = newB dx dt (lv a) a (sb ! a)"
  by (simp add: stateB_def)

lemma stateB_update:
  assumes "a < length sb"
  shows "(stateB dx dt lv sb)[a := newB dx dt n a (sb ! a)] = stateB dx dt (lv(a := n)) sb"
  by (rule nth_equalityI) (use assms in \<open>auto simp: stateB_nth nth_list_update\<close>)

lemma newB_sat:
  assumes "same_size ax" "length (data (sigma ax)) \<le> i"
  shows "newB dx dt (Suc i) a ax = newB dx dt i a ax"
  using assms by (simp add: newB_def same_size_def Let_def)

lemma FactorsB_axis_step:
  assumes a: "a < length sb" and sz: "same_size (sb ! a)" and lv: "lv a = i"
  shows "FactorsB_axis dx dt (int i) a (stateB dx dt lv sb) = Inr (stateB dx dt (lv(a := Suc i)) sb)"
proof -
  let ?ax = "sb ! a"
  let ?n = "length (data (sigma ?ax))"
  have len: "length (data (sigma_star ?ax)) = ?n" "length (data (sigma_star_cumsum ?ax)) = ?n"
    "length (data (sigma_star_fac ?ax)) = ?n" "length (data (sigma_star_cumsum_fac ?ax)) = ?n"
    using sz by (simp_all add: same_size_def Let_def)
  have cur: "stateB dx dt lv sb ! a = newB dx dt i a ?ax"
    using a lv by (simp add: stateB_nth)
  show ?thesis
  proof (cases "i < ?n")
    case True
    have g1: "get (data (sigma_star ?ax)) (int i) = Inr (data (sigma_star ?ax) ! i)"
      using True len by (simp add: get_def)
    have g2: "get (data (sigma_star_cumsum ?ax)) (int i) = Inr (data (sigma_star_cumsum ?ax) ! i)"
      using True len by (simp add: get_def)
    have p1: "put (map (\<lambda>s. exp (- s * dt)) (take i (data (sigma_star ?ax)))
                @ drop i (data (sigma_star_fac ?ax))) (int i) (exp (- data (sigma_star ?ax) ! i * dt))
          = Inr (map (\<lambda>s. exp (- s * dt)) (take (Suc i) (data (sigma_star ?ax)))
                @ drop (Suc i) (data (sigma_star_fac ?ax)))"
      using True len take_drop_step[of i "data (sigma_star ?ax)" "data (sigma_star_fac ?ax)"
          "\<lambda>s. exp (- s * dt)"]
      by (simp add: put_def)
    have p2: "put (map (\<lambda>s. exp (- s * dx ! a)) (take i (data (sigma_star_cumsum ?ax)))
                @ drop i (data (sigma_star_cumsum_fac ?ax))) (int i)
                (exp (- data (sigma_star_cumsum ?ax) ! i * dx ! a))
          = Inr (map (\<lambda>s. exp (- s * dx ! a)) (take (Suc i) (data (sigma_star_cumsum ?ax)))
                @ drop (Suc i) (data (sigma_star_cumsum_fac ?ax)))"
      using True len take_drop_step[of i "data (sigma_star_cumsum ?ax)"
          "data (sigma_star_cumsum_fac ?ax)" "\<lambda>s. exp (- s * dx ! a)"]
      by (simp add: put_def)
    have "FactorsB_axis dx dt (int i) a (stateB dx dt lv sb)
        = Inr ((stateB dx dt lv sb)[a := newB dx dt (Suc i) a ?ax])"
      unfolding FactorsB_axis_def Let_def cur
      using True len g1 g2 p1 p2 by (simp add: newB_def)
    then show ?thesis using stateB_update[OF a] by simp
  next
    case False
    then have "FactorsB_axis dx dt (int i) a (stateB dx dt lv sb) = Inr (stateB dx dt lv sb)"
      unfolding FactorsB_axis_def Let_def cur using len by (simp add: newB_def)
    moreover have "stateB dx dt (lv(a := Suc i)) sb = stateB dx dt lv sb"
    proof -
      have "(stateB dx dt lv sb)[a := newB dx dt i a ?ax] = stateB dx dt lv sb"
        using list_update_id[of "stateB dx dt lv sb" a] cur by simp
      moreover have "newB dx dt (Suc i) a ?ax = newB dx dt i a ?ax"
        using newB_sat[OF sz, of i dx dt a] False by simp
      ultimately show ?thesis
        using stateB_update[OF a, of dx dt lv "Suc i"] by simp
    qed
    ultimately show ?thesis by simp
  qed
qed


lemma stateB_cong:
  "(\<And>k. k < length sb \<Longrightarrow> lv k = lv' k) \<Longrightarrow> stateB dx dt lv sb = stateB dx dt lv' sb"
  by (simp add: stateB_def)

lemma FactorsB_inner:
  assumes sz: "list_all same_size sb" and a: "a \<le> length sb"
  shows "for_nat a (FactorsB_axis dx dt (int i)) (stateB dx dt (\<lambda>_. i) sb)
       = Inr (stateB dx dt (\<lambda>k. if k < a then Suc i else i) sb)"
  using a
proof (induction a)
  case 0
  then show ?case by simp
next
  case (Suc a)
  then have a: "a < length sb" by simp
  then have s: "same_size (sb ! a)" using sz by (simp add: list_all_length)
  have "FactorsB_axis dx dt (int i) a (stateB dx dt (\<lambda>k. if k < a then Suc i else i) sb)
      = Inr (stateB dx dt ((\<lambda>k. if k < a then Suc i else i)(a := Suc i)) sb)"
    by (rule FactorsB_axis_step[OF a s]) simp
  moreover have "stateB dx dt ((\<lambda>k. if k < a then Suc i else i)(a := Suc i)) sb
      = stateB dx dt (\<lambda>k. if k < Suc a then Suc i else i) sb"
    by (rule stateB_cong) auto
  ultimately show ?case using Suc.IH a by simp
qed

lemma FactorsB_outer:
  assumes sz: "list_all same_size sb"
  shows "for_nat n (\<lambda>k. for_nat (length sb) (FactorsB_axis dx dt (int k))) (stateB dx dt (\<lambda>_. 0) sb)
       = Inr (stateB dx dt (\<lambda>_. n) sb)"
proof (induction n)
  case 0
  then show ?case by simp
next
  case (Suc n)
  have "stateB dx dt (\<lambda>k. if k < length sb then Suc n else n) sb = stateB dx dt (\<lambda>_. Suc n) sb"
    by (rule stateB_cong) simp
  then show ?case
    using Suc.IH FactorsB_inner[OF sz order_refl, of dx dt n] by simp
qed

lemma stateB_0: "stateB dx dt (\<lambda>_. 0) sb = sb"
  by (rule nth_equalityI) (simp_all add: stateB_nth newB_def)

lemma stateB_done:
  assumes sz: "list_all same_size sb"
    and n: "\<forall>ax\<in>set sb. length (data (sigma_star ax)) \<le> n"
  shows "stateB dx dt (\<lambda>_. n) sb = doneB dx dt sb"
proof (rule nth_equalityI)
  show "length (stateB dx dt (\<lambda>_. n) sb) = length (doneB dx dt sb)"
    by (simp add: doneB_def)
next
  fix a assume "a < length (stateB dx dt (\<lambda>_. n) sb)"
  then have a: "a < length sb" by simp
  then have s: "same_size (sb ! a)" using sz by (simp add: list_all_length)
  from a n have "length (data (sigma_star (sb ! a))) \<le> n" by simp
  with s show "stateB dx dt (\<lambda>_. n) sb ! a = doneB dx dt sb ! a"
    using a by (simp add: stateB_nth doneB_def newB_def same_size_def Let_def)
qed

lemma SigmaBox_ComputePMLFactorsB_result:
  assumes sz: "list_all same_size sb"
  shows "SigmaBox_ComputePMLFactorsB dx dt sb = Inr (doneB dx dt sb)"
proof -
  let ?N = "foldr max (map (\<lambda>ax. int (length (data (sigma_star ax)))) sb) 0"
  have "\<forall>ax\<in>set sb. length (data (sigma_star ax)) \<le> nat ?N"
  proof
    fix ax assume "ax \<in> set sb"
    then have "int (length (data (sigma_star ax))) \<le> ?N"
      by (intro foldr_max_ge) simp
    then show "length (data (sigma_star ax)) \<le> nat ?N" by simp
  qed
  from stateB_done[OF sz this] have fin: "stateB dx dt (\<lambda>_. nat ?N) sb = doneB dx dt sb" .
  have "SigmaBox_ComputePMLFactorsB dx dt sb
      = for_nat (nat ?N) (\<lambda>k. for_nat (length sb) (FactorsB_axis dx dt (int k))) (stateB dx dt (\<lambda>_. 0) sb)"
    by (simp add: SigmaBox_ComputePMLFactorsB_def ParallelFor_def Let_def stateB_0)
  also have "\<dots> = Inr (stateB dx dt (\<lambda>_. nat ?N) sb)"
    by (rule FactorsB_outer[OF sz])
  finally show ?thesis using fin by simp
qed

lemma MultiSigmaBox_B_recompute:
  assumes "sized m" "dt \<noteq> dt_B m"
  shows "MultiSigmaBox_ComputePMLFactorsB dx dt m
       = Inr (m\<lparr>dt_B := dt, sboxes := map (doneB dx dt) (sboxes m)\<rparr>)"
proof -
  have "for_boxes (SigmaBox_ComputePMLFactorsB dx dt) (sboxes m) = Inr (map (doneB dx dt) (sboxes m))"
    by (rule for_boxes_map)
      (use assms(1) in \<open>simp add: sized_def list_all_iff SigmaBox_ComputePMLFactorsB_result\<close>)
  then show ?thesis using assms(2) by (simp add: MultiSigmaBox_ComputePMLFactorsB_def)
qed


lemma stateE_length [simp]: "length (stateE dx dt lv sb) = length sb"
  by (simp add: stateE_def)

lemma stateE_nth: "a < length sb \<Longrightarrow> stateE dx dt lv sb ! a = newE dx dt (lv a) a (sb ! a)"
  by (simp add: stateE_def)

lemma stateE_update:
  assumes "a < length sb"
  shows "(stateE dx dt lv sb)[a := newE dx dt n a (sb ! a)] = stateE dx dt (lv(a := n)) sb"
  by (rule nth_equalityI) (use assms in \<open>auto simp: stateE_nth nth_list_update\<close>)

lemma newE_sat:
  assumes "same_size ax" "length (data (sigma ax)) \<le> i"
  shows "newE dx dt (Suc i) a ax = newE dx dt i a ax"
  using assms by (simp add: newE_def same_size_def Let_def)

lemma FactorsE_axis_step:
  assumes a: "a < length sb" and sz: "same_size (sb ! a)" and lv: "lv a = i"
  shows "FactorsE_axis dx dt (int i) a (stateE dx dt lv sb) = Inr (stateE dx dt (lv(a := Suc i)) sb)"
proof -
  let ?ax = "sb ! a"
  let ?n = "length (data (sigma ?ax))"
  have len: "length (data (sigma ?ax)) = ?n" "length (data (sigma_cumsum ?ax)) = ?n"
    "length (data (sigma_fac ?ax)) = ?n" "length (data (sigma_cumsum_fac ?ax)) = ?n"
    using sz by (simp_all add: same_size_def Let_def)
  have cur: "stateE dx dt lv sb ! a = newE dx dt i a ?ax"
    using a lv by (simp add: stateE_nth)
  show ?thesis
  proof (cases "i < ?n")
    case True
    have g1: "get (data (sigma ?ax)) (int i) = Inr (data (sigma ?ax) ! i)"
      using True len by (simp add: get_def)
    have g2: "get (data (sigma_cumsum ?ax)) (int i) = Inr (data (sigma_cumsum ?ax) ! i)"
      using True len by (simp add: get_def)
    have p1: "put (map (\<lambda>s. exp (- s * dt)) (take i (data (sigma ?ax)))
                @ drop i (data (sigma_fac ?ax))) (int i) (exp (- data (sigma ?ax) ! i * dt))
          = Inr (map (\<lambda>s. exp (- s * dt)) (take (Suc i) (data (sigma ?ax)))
                @ drop (Suc i) (data (sigma_fac ?ax)))"
      using True len take_drop_step[of i "data (sigma ?ax)" "data (sigma_fac ?ax)"
          "\<lambda>s. exp (- s * dt)"]
      by (simp add: put_def)
    have p2: "put (map (\<lambda>s. exp (- s * dx ! a)) (take i (data (sigma_cumsum ?ax)))
                @ drop i (data (sigma_cumsum_fac ?ax))) (int i)
                (exp (- data (sigma_cumsum ?ax) ! i * dx ! a))
          = Inr (map (\<lambda>s. exp (- s * dx ! a)) (take (Suc i) (data (sigma_cumsum ?ax)))
                @ drop (Suc i) (data (sigma_cumsum_fac ?ax)))"
      using True len take_drop_step[of i "data (sigma_cumsum ?ax)"
          "data (sigma_cumsum_fac ?ax)" "\<lambda>s. exp (- s * dx ! a)"]
      by (simp add: put_def)
    have "FactorsE_axis dx dt (int i) a (stateE dx dt lv sb)
        = Inr ((stateE dx dt lv sb)[a := newE dx dt (Suc i) a ?ax])"
      unfolding FactorsE_axis_def Let_def cur
      using True len g1 g2 p1 p2 by (simp add: newE_def)
    then show ?thesis using stateE_update[OF a] by simp
  next
    case False
    then have "FactorsE_axis dx dt (int i) a (stateE dx dt lv sb) = Inr (stateE dx dt lv sb)"
      unfolding FactorsE_axis_def Let_def cur using len by (simp add: newE_def)
    moreover have "stateE dx dt (lv(a := Suc i)) sb = stateE dx dt lv sb"
    proof -
      have "(stateE dx dt lv sb)[a := newE dx dt i a ?ax] = stateE dx dt lv sb"
        using list_update_id[of "stateE dx dt lv sb" a] cur by simp
      moreover have "newE dx dt (Suc i) a ?ax = newE dx dt i a ?ax"
        using newE_sat[OF sz, of i dx dt a] False by simp
      ultimately show ?thesis
        using stateE_update[OF a, of dx dt lv "Suc i"] by simp
    qed
    ultimately show ?thesis by simp
  qed
qed


lemma stateE_cong:
  "(\<And>k. k < length sb \<Longrightarrow> lv k = lv' k) \<Longrightarrow> stateE dx dt lv sb = stateE dx dt lv' sb"
  by (simp add: stateE_def)

lemma FactorsE_inner:
  assumes sz: "list_all same_size sb" and a: "a \<le> length sb"
  shows "for_nat a (FactorsE_axis dx dt (int i)) (stateE dx dt (\<lambda>_. i) sb)
       = Inr (stateE dx dt (\<lambda>k. if k < a then Suc i else i) sb)"
  using a
proof (induction a)
  case 0
  then show ?case by simp
next
  case (Suc a)
  then have a: "a < length sb" by simp
  then have s: "same_size (sb ! a)" using sz by (simp add: list_all_length)
  have "FactorsE_axis dx dt (int i) a (stateE dx dt (\<lambda>k. if k < a then Suc i else i) sb)
      = Inr (stateE dx dt ((\<lambda>k. if k < a then Suc i else i)(a := Suc i)) sb)"
    by (rule FactorsE_axis_step[OF a s]) simp
  moreover have "stateE dx dt ((\<lambda>k. if k < a then Suc i else i)(a := Suc i)) sb
      = stateE dx dt (\<lambda>k. if k < Suc a then Suc i else i) sb"
    by (rule stateE_cong) auto
  ultimately show ?case using Suc.IH a by simp
qed

lemma FactorsE_outer:
  assumes sz: "list_all same_size sb"
  shows "for_nat n (\<lambda>k. for_nat (length sb) (FactorsE_axis dx dt (int k))) (stateE dx dt (\<lambda>_. 0) sb)
       = Inr (stateE dx dt (\<lambda>_. n) sb)"
proof (induction n)
  case 0
  then show ?case by simp
next
  case (Suc n)
  have "stateE dx dt (\<lambda>k. if k < length sb then Suc n else n) sb = stateE dx dt (\<lambda>_. Suc n) sb"
    by (rule stateE_cong) simp
  then show ?case
    using Suc.IH FactorsE_inner[OF sz order_refl, of dx dt n] by simp
qed

lemma stateE_0: "stateE dx dt (\<lambda>_. 0) sb = sb"
  by (rule nth_equalityI) (simp_all add: stateE_nth newE_def)

lemma stateE_done:
  assumes sz: "list_all same_size sb"
    and n: "\<forall>ax\<in>set sb. length (data (sigma ax)) \<le> n"
  shows "stateE dx dt (\<lambda>_. n) sb = doneE dx dt sb"
proof (rule nth_equalityI)
  show "length (stateE dx dt (\<lambda>_. n) sb) = length (doneE dx dt sb)"
    by (simp add: doneE_def)
next
  fix a assume "a < length (stateE dx dt (\<lambda>_. n) sb)"
  then have a: "a < length sb" by simp
  then have s: "same_size (sb ! a)" using sz by (simp add: list_all_length)
  from a n have "length (data (sigma (sb ! a))) \<le> n" by simp
  with s show "stateE dx dt (\<lambda>_. n) sb ! a = doneE dx dt sb ! a"
    using a by (simp add: stateE_nth doneE_def newE_def same_size_def Let_def)
qed

lemma SigmaBox_ComputePMLFactorsE_result:
  assumes sz: "list_all same_size sb"
  shows "SigmaBox_ComputePMLFactorsE dx dt sb = Inr (doneE dx dt sb)"
proof -
  let ?N = "foldr max (map (\<lambda>ax. int (length (data (sigma ax)))) sb) 0"
  have "\<forall>ax\<in>set sb. length (data (sigma ax)) \<le> nat ?N"
  proof
    fix ax assume "ax \<in> set sb"
    then have "int (length (data (sigma ax))) \<le> ?N"
      by (intro foldr_max_ge) simp
    then show "length (data (sigma ax)) \<le> nat ?N" by simp
  qed
  from stateE_done[OF sz this] have fin: "stateE dx dt (\<lambda>_. nat ?N) sb = doneE dx dt sb" .
  have "SigmaBox_ComputePMLFactorsE dx dt sb
      = for_nat (nat ?N) (\<lambda>k. for_nat (length sb) (FactorsE_axis dx dt (int k))) (stateE dx dt (\<lambda>_. 0) sb)"
    by (simp add: SigmaBox_ComputePMLFactorsE_def ParallelFor_def Let_def stateE_0)
  also have "\<dots> = Inr (stateE dx dt (\<lambda>_. nat ?N) sb)"
    by (rule FactorsE_outer[OF sz])
  finally show ?thesis using fin by simp
qed

lemma MultiSigmaBox_E_recompute:
  assumes "sized m" "dt \<noteq> dt_E m"
  shows "MultiSigmaBox_ComputePMLFactorsE dx dt m
       = Inr (m\<lparr>dt_E := dt, sboxes := map (doneE dx dt) (sboxes m)\<rparr>)"
proof -
  have "for_boxes (SigmaBox_ComputePMLFactorsE dx dt) (sboxes m) = Inr (map (doneE dx dt) (sboxes m))"
    by (rule for_boxes_map)
      (use assms(1) in \<open>simp add: sized_def list_all_iff SigmaBox_ComputePMLFactorsE_result\<close>)
  then show ?thesis using assms(2) by (simp add: MultiSigmaBox_ComputePMLFactorsE_def)
qed


lemma for_nat_rel:
  assumes refl: "\<And>s. R s s" and trans: "\<And>s t u. R s t \<Longrightarrow> R t u \<Longrightarrow> R s u"
    and step: "\<And>k s t. f k s = Inr t \<Longrightarrow> R s t"
  shows "for_nat n f s = Inr t \<Longrightarrow> R s t"
proof (induction n arbitrary: t)
  case 0
  then show ?case using refl by simp
next
  case (Suc n)
  then obtain u where u: "for_nat n f s = Inr u" and t: "f n u = Inr t"
    by (auto split: sum.splits)
  from Suc.IH[OF u] step[OF t] show ?case by (rule trans)
qed

lemma for_boxes_rel:
  assumes step: "\<And>b b'. f b = Inr b' \<Longrightarrow> R b b'"
  shows "for_boxes f bs = Inr bs' \<Longrightarrow> list_all2 R bs bs'"
proof (induction bs arbitrary: bs')
  case Nil
  then show ?case by simp
next
  case (Cons b bs)
  then obtain b' cs where "f b = Inr b'" "for_boxes f bs = Inr cs" "bs' = b' # cs"
    by (auto split: sum.splits)
  then show ?case using step Cons.IH by simp
qed

lemma keepsB_refl: "list_all2 keepsB sb sb"
  by (simp add: list_all2_conv_all_nth keepsB_def)

lemma keepsB_trans: "list_all2 keepsB s t \<Longrightarrow> list_all2 keepsB t u \<Longrightarrow> list_all2 keepsB s u"
  by (auto simp: list_all2_conv_all_nth keepsB_def)

lemma keepsE_refl: "list_all2 keepsE sb sb"
  by (simp add: list_all2_conv_all_nth keepsE_def)

lemma keepsE_trans: "list_all2 keepsE s t \<Longrightarrow> list_all2 keepsE t u \<Longrightarrow> list_all2 keepsE s u"
  by (auto simp: list_all2_conv_all_nth keepsE_def)

lemma FactorsE_axis_keepsB:
  assumes "FactorsE_axis dx dt i a sb = Inr sb'"
  shows "list_all2 keepsB sb sb'"
proof (cases "sb' = sb")
  case True
  then show ?thesis by (simp add: keepsB_refl)
next
  case False
  with assms obtain f fc where
    "sb' = sb[a := (sb ! a)\<lparr>sigma_fac := (sigma_fac (sb ! a))\<lparr>data := f\<rparr>,
                            sigma_cumsum_fac := (sigma_cumsum_fac (sb ! a))\<lparr>data := fc\<rparr>\<rparr>]"
    by (auto simp: FactorsE_axis_def Let_def split: if_splits sum.splits)
  then show ?thesis
    by (cases "a < length sb") (auto simp: list_all2_conv_all_nth keepsB_def nth_list_update)
qed

lemma FactorsB_axis_keepsE:
  assumes "FactorsB_axis dx dt i a sb = Inr sb'"
  shows "list_all2 keepsE sb sb'"
proof (cases "sb' = sb")
  case True
  then show ?thesis by (simp add: keepsE_refl)
next
  case False
  with assms obtain f fc where
    "sb' = sb[a := (sb ! a)\<lparr>sigma_star_fac := (sigma_star_fac (sb ! a))\<lparr>data := f\<rparr>,
                  sigma_star_cumsum_fac := (sigma_star_cumsum_fac (sb ! a))\<lparr>data := fc\<rparr>\<rparr>]"
    by (auto simp: FactorsB_axis_def Let_def split: if_splits sum.splits)
  then show ?thesis
    by (cases "a < length sb") (auto simp: list_all2_conv_all_nth keepsE_def nth_list_update)
qed

lemma SigmaBox_E_keepsB:
  assumes "SigmaBox_ComputePMLFactorsE dx dt sb = Inr sb'"
  shows "list_all2 keepsB sb sb'"
proof -
  have inner: "\<And>i s t. for_nat (length sb) (FactorsE_axis dx dt i) s = Inr t \<Longrightarrow> list_all2 keepsB s t"
    by (rule for_nat_rel[where R = "list_all2 keepsB"])
      (auto intro: keepsB_refl keepsB_trans FactorsE_axis_keepsB)
  from assms show ?thesis
    unfolding SigmaBox_ComputePMLFactorsE_def ParallelFor_def Let_def
    by (rule for_nat_rel[where R = "list_all2 keepsB", rotated 3])
      (auto intro: keepsB_refl keepsB_trans inner)
qed

lemma SigmaBox_B_keepsE:
  assumes "SigmaBox_ComputePMLFactorsB dx dt sb = Inr sb'"
  shows "list_all2 keepsE sb sb'"
proof -
  have inner: "\<And>i s t. for_nat (length sb) (FactorsB_axis dx dt i) s = Inr t \<Longrightarrow> list_all2 keepsE s t"
    by (rule for_nat_rel[where R = "list_all2 keepsE"])
      (auto intro: keepsE_refl keepsE_trans FactorsB_axis_keepsE)
  from assms show ?thesis
    unfolding SigmaBox_ComputePMLFactorsB_def ParallelFor_def Let_def
    by (rule for_nat_rel[where R = "list_all2 keepsE", rotated 3])
      (auto intro: keepsE_refl keepsE_trans inner)
qed

lemma list_all2_refl_keepsB: "list_all2 (list_all2 keepsB) bs bs"
  by (simp add: list_all2_conv_all_nth keepsB_def)

lemma list_all2_refl_keepsE: "list_all2 (list_all2 keepsE) bs bs"
  by (simp add: list_all2_conv_all_nth keepsE_def)

lemma MultiSigmaBox_E_keepsB:
  assumes "MultiSigmaBox_ComputePMLFactorsE dx dt m = Inr m'"
  shows "dt_B m' = dt_B m \<and> list_all2 (list_all2 keepsB) (sboxes m) (sboxes m')"
proof (cases "dt = dt_E m")
  case True
  with assms show ?thesis
    by (simp add: MultiSigmaBox_ComputePMLFactorsE_def list_all2_refl_keepsB)
next
  case False
  with assms obtain bs where bs: "for_boxes (SigmaBox_ComputePMLFactorsE dx dt) (sboxes m) = Inr bs"
    and m': "m' = m\<lparr>dt_E := dt, sboxes := bs\<rparr>"
    by (auto simp: MultiSigmaBox_ComputePMLFactorsE_def split: sum.splits)
  from for_boxes_rel[where R = "list_all2 keepsB", OF SigmaBox_E_keepsB bs] m'
  show ?thesis by simp
qed

lemma MultiSigmaBox_B_keepsE:
  assumes "MultiSigmaBox_ComputePMLFactorsB dx dt m = Inr m'"
  shows "dt_E m' = dt_E m \<and> list_all2 (list_all2 keepsE) (sboxes m) (sboxes m')"
proof (cases "dt = dt_B m")
  case True
  with assms show ?thesis
    by (simp add: MultiSigmaBox_ComputePMLFactorsB_def list_all2_refl_keepsE)
next
  case False
  with assms obtain bs where bs: "for_boxes (SigmaBox_ComputePMLFactorsB dx dt) (sboxes m) = Inr bs"
    and m': "m' = m\<lparr>dt_B := dt, sboxes := bs\<rparr>"
    by (auto simp: MultiSigmaBox_ComputePMLFactorsB_def split: sum.splits)
  from for_boxes_rel[where R = "list_all2 keepsE", OF SigmaBox_B_keepsE bs] m'
  show ?thesis by simp
qed

lemma MultiSigmaBox_B_cached:
  assumes "MultiSigmaBox_ComputePMLFactorsB dx dt m = Inr m'"
  shows "dt_B m' = dt"
  using assms by (auto simp: MultiSigmaBox_ComputePMLFactorsB_def split: if_splits sum.splits)

lemma MultiSigmaBox_E_cached:
  assumes "MultiSigmaBox_ComputePMLFactorsE dx dt m = Inr m'"
  shows "dt_E m' = dt"
  using assms by (auto simp: MultiSigmaBox_ComputePMLFactorsE_def split: if_splits sum.splits)

lemma doneB_nth:
  "a < length sb \<Longrightarrow> doneB dx dt sb ! a =
     (sb ! a)\<lparr>sigma_star_fac := (sigma_star_fac (sb ! a))\<lparr>data :=
                   map (\<lambda>s. exp (- s * dt)) (data (sigma_star (sb ! a)))\<rparr>,
               sigma_star_cumsum_fac := (sigma_star_cumsum_fac (sb ! a))\<lparr>data :=
                   map (\<lambda>s. exp (- s * dx ! a)) (data (sigma_star_cumsum (sb ! a)))\<rparr>\<rparr>"
  by (simp add: doneB_def)

lemma doneE_nth:
  "a < length sb \<Longrightarrow> doneE dx dt sb ! a =
     (sb ! a)\<lparr>sigma_fac := (sigma_fac (sb ! a))\<lparr>data :=
                   map (\<lambda>s. exp (- s * dt)) (data (sigma (sb ! a)))\<rparr>,
               sigma_cumsum_fac := (sigma_cumsum_fac (sb ! a))\<lparr>data :=
                   map (\<lambda>s. exp (- s * dx ! a)) (data (sigma_cumsum (sb ! a)))\<rparr>\<rparr>"
  by (simp add: doneE_def)

lemma sized_nth:
  "sized m \<Longrightarrow> k < length (sboxes m) \<Longrightarrow> a < length (sboxes m ! k) \<Longrightarrow> same_size (sboxes m ! k ! a)"
  by (simp add: sized_def list_all_length)

lemma msb0_sized: "sized msb0"
  by (simp add: sized_def msb0_def axis0_def zeros2_def same_size_def)

lemma msb0_doneB:
  "map (doneB [1] 1) (sboxes msb0) =
     [[axis0\<lparr>sigma_star_fac := zeros2\<lparr>data := [1, 1]\<rparr>,
              sigma_star_cumsum_fac := zeros2\<lparr>data := [1, 1]\<rparr>\<rparr>]]"
  by (simp add: msb0_def doneB_def axis0_def zeros2_def)

lemma msb0_doneE:
  "map (doneE [1] 1) (sboxes msb0) =
     [[axis0\<lparr>sigma_fac := zeros2\<lparr>data := [1, 1]\<rparr>,
              sigma_cumsum_fac := zeros2\<lparr>data := [1, 1]\<rparr>\<rparr>]]"
  by (simp add: msb0_def doneE_def axis0_def zeros2_def)

section \<open>The layer geometry\<close>

lemma MakeBoxArray_loop_rejects:
  assumes "do_pml_in_domain = 0"
    "\<exists>g\<in>set rest. \<not> blocking_factor_ok geom ncell do_pml_Lo do_pml_Hi g"
  shows "MakeBoxArray_loop geom grid_ba ncell do_pml_in_domain do_pml_Lo do_pml_Hi domain rest bl
     = Inl BlockingFactor"
  using assms(2)
proof (induction rest arbitrary: bl)
  case Nil
  then show ?case by simp
next
  case (Cons g rest)
  then show ?case using assms(1) by (cases "blocking_factor_ok geom ncell do_pml_Lo do_pml_Hi g") auto
qed




















lemma grow_domain_axis_length [simp]:
  "length (grow_domain_axis geom ncell lo hi idim b) = length b"
  by (simp add: grow_domain_axis_def growLo_def growHi_def setSmall_def setBig_def Let_def)





lemma MakeBoxArray_square8:
  "MakeBoxArray square8 [[(0, 7), (0, 7)]] 2 0 [1, 1] [1, 1] =
     Inr [[(- 2, - 1), (- 2, - 1)], [(0, 7), (- 2, - 1)], [(8, 9), (- 2, - 1)],
          [(- 2, - 1), (8, 9)], [(0, 7), (8, 9)], [(8, 9), (8, 9)],
          [(- 2, - 1), (0, 7)], [(8, 9), (0, 7)]]"
  by code_simp

section \<open>Fields and the exchange\<close>

lemma cell_in_iff:
  "cell_in b p \<longleftrightarrow> length p = length b \<and>
     (\<forall>i<length b. smallEnd b i \<le> p ! i \<and> p ! i \<le> bigEnd b i)"
  by (auto simp: cell_in_def list_all2_conv_all_nth smallEnd_def bigEnd_def case_prod_unfold)

lemma cell_in_intersects: "cell_in a p \<Longrightarrow> cell_in b p \<Longrightarrow> intersects a b"
  unfolding cell_in_iff intersects_iff by (metis order_trans)

lemma boxDiff_cell: "cell_in b p \<Longrightarrow> \<not> list_ex (\<lambda>bx. cell_in bx p) (boxDiff a b)"
  unfolding list_ex_iff using boxDiff_disjoint cell_in_intersects by blast

lemma grow_vect_zero [simp]: "grow_vect b (map (\<lambda>_. 0) ng) = b"
proof (induction b arbitrary: ng)
  case Nil
  show ?case by simp
next
  case (Cons a b)
  show ?case using Cons.IH[of "[]"] Cons.IH[of "tl ng"] by (cases a; cases ng) simp_all
qed

lemma grow_vect_IntVect_of [simp]: "grow_vect b (IntVect_of mf 0) = b"
  by (simp add: IntVect_of_def)

lemma copy_ghost_shape:
  "copy_ghost reg t = reg\<lparr>fabs := fabs (copy_ghost reg t)\<rparr>"
  by (simp add: copy_ghost_def)

lemma copy_ghost_valid:
  "k < length (boxArray reg) \<Longrightarrow> cell_in (boxArray reg ! k) p \<Longrightarrow>
     (fabs (copy_ghost reg t) ! k) p c = (fabs reg ! k) p c"
  by (simp add: copy_ghost_def boxDiff_cell)

lemma copy_ghost_comp:
  "k < length (boxArray reg) \<Longrightarrow> c \<noteq> 0 \<Longrightarrow>
     (fabs (copy_ghost reg t) ! k) p c = (fabs reg ! k) p c"
  by (simp add: copy_ghost_def)

lemma Exchange_reg:
  "snd (Exchange pc uninit pml reg geom 0) =
     (if IntVect_max (nGrowVect reg) > 0
      then copy_ghost reg (pc (Copy (MultiFab_new uninit (boxArray reg) (nComp pml) (nGrowVect reg))
             reg 0 0 1 (nGrowVect reg)) (totpmlmf_of uninit pml)
           0 0 1 (IntVect_of reg 0) (nGrowVect reg) (periodicity geom))
      else reg)"
  by (simp add: Exchange_def Let_def totpmlmf_of_def)

lemma Exchange_reg_frame:
  "boxArray (snd (Exchange pc uninit pml reg geom 0)) = boxArray reg"
  "nGrowVect (snd (Exchange pc uninit pml reg geom 0)) = nGrowVect reg"
  "nComp (snd (Exchange pc uninit pml reg geom 0)) = nComp reg"
  "k < length (boxArray reg) \<Longrightarrow> cell_in (boxArray reg ! k) p \<or> c \<noteq> 0 \<Longrightarrow>
     (fabs (snd (Exchange pc uninit pml reg geom 0)) ! k) p c = (fabs reg ! k) p c"
  unfolding Exchange_reg
  using copy_ghost_valid[of k reg p _ c] copy_ghost_comp[of k reg c _ p]
  by (auto simp: copy_ghost_def)

lemma grow_vect_Nil [simp]: "grow_vect b [] = b"
  using grow_vect_zero[of b "[]"] by simp

lemma on_blocks_frame [simp]:
  "boxArray (on_blocks dst ng dc nc v) = boxArray dst"
  "nGrowVect (on_blocks dst ng dc nc v) = nGrowVect dst"
  "nComp (on_blocks dst ng dc nc v) = nComp dst"
  by (simp_all add: on_blocks_def)

lemma on_blocks_nth:
  "k < length (boxArray dst) \<Longrightarrow>
   (fabs (on_blocks dst ng dc nc v) ! k) p c =
     (if dc \<le> c \<and> c < dc + nc \<and> cell_in (grow_vect (boxArray dst ! k) ng) p
      then v k p c else (fabs dst ! k) p c)"
  by (simp add: on_blocks_def)

lemma ops_frame [simp]:
  "boxArray (Copy dst src sc dc nc ng) = boxArray dst"
  "nGrowVect (Copy dst src sc dc nc ng) = nGrowVect dst"
  "nComp (Copy dst src sc dc nc ng) = nComp dst"
  "boxArray (setVal dst val dc nc ng) = boxArray dst"
  "nGrowVect (setVal dst val dc nc ng) = nGrowVect dst"
  "nComp (setVal dst val dc nc ng) = nComp dst"
  "boxArray (ParallelCopy ord dst src sc dc nc sng ng per) = boxArray dst"
  "nGrowVect (ParallelCopy ord dst src sc dc nc sng ng per) = nGrowVect dst"
  "nComp (ParallelCopy ord dst src sc dc nc sng ng per) = nComp dst"
  "boxArray (copy_ghost reg t) = boxArray reg"
  "nGrowVect (copy_ghost reg t) = nGrowVect reg"
  "nComp (copy_ghost reg t) = nComp reg"
  "boxArray (MultiFab_new uninit ba n g) = ba"
  "nGrowVect (MultiFab_new uninit ba n g) = g"
  "nComp (MultiFab_new uninit ba n g) = n"
  by (simp_all add: Copy_def setVal_def ParallelCopy_def copy_ghost_def MultiFab_new_def)

lemma sources_mem:
  assumes "(i, pit) \<in> set (sources ba sng period q)"
  shows "i < length ba" "pit \<in> set (shiftIntVect period)"
    "cell_in (grow_vect (ba ! i) sng) (IntVect_minus q pit)"
  using assms by (auto simp: sources_def)

lemma last_written_mem: "cands \<noteq> [] \<Longrightarrow> last_written ord k q cands \<in> set cands"
  by (simp add: last_written_def)

lemma last_written_source:
  assumes "sources ba sng period q \<noteq> []"
  shows "fst (last_written ord k q (sources ba sng period q)) < length ba"
    "snd (last_written ord k q (sources ba sng period q)) \<in> set (shiftIntVect period)"
    "cell_in (grow_vect (ba ! fst (last_written ord k q (sources ba sng period q))) sng)
       (IntVect_minus q (snd (last_written ord k q (sources ba sng period q))))"
  using sources_mem[of "fst (last_written ord k q (sources ba sng period q))"
      "snd (last_written ord k q (sources ba sng period q))" ba sng period q]
    last_written_mem[OF assms, of ord k q]
  by simp_all

lemma ParallelCopy_nth:
  "k < length (boxArray dst) \<Longrightarrow>
   (fabs (ParallelCopy ord dst src sc dc nc sng ng per) ! k) q c =
     (if dc \<le> c \<and> c < dc + nc \<and> cell_in (grow_vect (boxArray dst ! k) ng) q \<and>
         sources (boxArray src) sng per q \<noteq> []
      then (fabs src ! fst (last_written ord k q (sources (boxArray src) sng per q)))
             (IntVect_minus q (snd (last_written ord k q (sources (boxArray src) sng per q))))
             (c - dc + sc)
      else (fabs dst ! k) q c)"
  by (simp add: ParallelCopy_def on_blocks_nth split: list.splits)

text \<open>The temporary field before the merge into the layer.\<close>

lemma buffer_nth:
  assumes i: "i < length (boxArray t)" and q: "cell_in (boxArray t ! i) q" and c: "c < ncp"
    and ba: "boxArray r = boxArray t"
  shows "(fabs (setVal (Copy t r 0 0 1 (IntVect_of reg 0)) 0 1 (ncp - 1) (IntVect_of reg 0)) ! i) q c =
     (if c = 0 then (fabs r ! i) q 0 else 0)"
  using i q c by (auto simp: setVal_def Copy_def on_blocks_nth)

lemma Exchange_pml:
  "\<exists>t. boxArray t = boxArray reg \<and>
     fst (Exchange (ParallelCopy ord) uninit pml reg geom d) =
       ParallelCopy ord pml
         (if d \<noteq> 0
          then ParallelCopy ord (setVal (Copy t (snd (Exchange (ParallelCopy ord) uninit pml reg geom d))
                 0 0 1 (IntVect_of reg 0)) 0 1 (nComp pml - 1) (IntVect_of reg 0)) pml
                 0 0 (nComp pml) (IntVect_of reg 0) (IntVect_of reg 0) (periodicity geom)
          else setVal (Copy t (snd (Exchange (ParallelCopy ord) uninit pml reg geom d))
                 0 0 1 (IntVect_of reg 0)) 0 1 (nComp pml - 1) (IntVect_of reg 0))
         0 0 (nComp pml) (IntVect_of reg 0) (nGrowVect pml) (periodicity geom)"
proof (cases "d \<noteq> 0")
  case True
  then show ?thesis
    by (intro exI[of _ "MultiFab_new uninit (boxArray reg) (nComp pml) (nGrowVect reg)"])
      (simp add: Exchange_def Let_def IntVect_of_def)
next
  case False
  show ?thesis
  proof (cases "IntVect_max (nGrowVect reg) > 0")
    case True
    with False show ?thesis
      by (intro exI[of _ "ParallelCopy ord (Copy (MultiFab_new uninit (boxArray reg) (nComp pml) (nGrowVect reg))
             reg 0 0 1 (nGrowVect reg)) (totpmlmf_of uninit pml)
           0 0 1 (IntVect_of reg 0) (nGrowVect reg) (periodicity geom)"])
        (simp add: Exchange_def Let_def IntVect_of_def totpmlmf_of_def)
  next
    case F2: False
    with False show ?thesis
      by (intro exI[of _ "MultiFab_new uninit (boxArray reg) (nComp pml) (nGrowVect reg)"])
        (simp add: Exchange_def Let_def IntVect_of_def)
  qed
qed

lemma Exchange_reg_boxArray:
  "boxArray (snd (Exchange (ParallelCopy ord) uninit pml reg geom d)) = boxArray reg"
  by (simp add: Exchange_def Let_def)

lemma sources_zero [simp]: "sources ba (IntVect_of mf 0) per q = sources ba [] per q"
  by (simp add: sources_def)

text \<open>
  The value of a cell of the layer after the exchange: \<open>w\<close> is the source in the interior
  field written last, \<open>w'\<close> the source in the layer written last to the temporary field.
\<close>

lemma Exchange_layer:
  assumes k: "k < length (boxArray pml)"
    and q: "cell_in (grow_vect (boxArray pml ! k) (nGrowVect pml)) q"
    and c: "c < nComp pml"
  shows "(fabs (fst (Exchange (ParallelCopy ord) uninit pml reg geom d)) ! k) q c =
     (let S = sources (boxArray reg) [] (periodicity geom) q;
          w = last_written ord k q S;
          q' = IntVect_minus q (snd w);
          S' = sources (boxArray pml) [] (periodicity geom) q';
          w' = last_written ord (fst w) q' S'
      in if S = [] then (fabs pml ! k) q c
         else if d = 0 \<or> S' = []
         then (if c = 0
               then (fabs (snd (Exchange (ParallelCopy ord) uninit pml reg geom d)) ! fst w) q' 0
               else 0)
         else (fabs pml ! fst w') (IntVect_minus q' (snd w')) c)"
proof -
  let ?R = "snd (Exchange (ParallelCopy ord) uninit pml reg geom d)"
  let ?Z = "IntVect_of reg 0"
  let ?per = "periodicity geom"
  let ?S = "sources (boxArray reg) [] ?per q"
  let ?w = "last_written ord k q ?S"
  let ?q' = "IntVect_minus q (snd ?w)"
  let ?S' = "sources (boxArray pml) [] ?per ?q'"
  let ?w' = "last_written ord (fst ?w) ?q' ?S'"
  obtain t where t: "boxArray t = boxArray reg"
    and E: "fst (Exchange (ParallelCopy ord) uninit pml reg geom d) =
       ParallelCopy ord pml
         (if d \<noteq> 0
          then ParallelCopy ord (setVal (Copy t ?R 0 0 1 ?Z) 0 1 (nComp pml - 1) ?Z) pml
                 0 0 (nComp pml) ?Z ?Z ?per
          else setVal (Copy t ?R 0 0 1 ?Z) 0 1 (nComp pml - 1) ?Z)
         0 0 (nComp pml) ?Z (nGrowVect pml) ?per"
    using Exchange_pml[of reg ord uninit pml geom d] by blast
  let ?B = "setVal (Copy t ?R 0 0 1 ?Z) 0 1 (nComp pml - 1) ?Z"
  have R: "boxArray ?R = boxArray t" by (simp add: Exchange_reg_boxArray t)
  show ?thesis
  proof (cases "?S = []")
    case True
    then show ?thesis using k q c by (simp add: E ParallelCopy_nth t Let_def)
  next
    case False
    note W = last_written_source[OF False, of ord k]
    from W have i: "fst ?w < length (boxArray t)" and qi: "cell_in (boxArray t ! fst ?w) ?q'"
      by (simp_all add: t)
    note buf = buffer_nth[OF i qi c R, of reg]
    show ?thesis
    proof (cases "d \<noteq> 0")
      case dF: False
      have E0: "fst (Exchange (ParallelCopy ord) uninit pml reg geom d) =
          ParallelCopy ord pml ?B 0 0 (nComp pml) ?Z (nGrowVect pml) ?per"
        by (simp only: E if_not_P[OF dF])
      have "(fabs (ParallelCopy ord pml ?B 0 0 (nComp pml) ?Z (nGrowVect pml) ?per) ! k) q c =
          (fabs ?B ! fst ?w) ?q' c"
        using k q c False by (simp add: ParallelCopy_nth t)
      with buf dF False show ?thesis unfolding E0 Let_def by auto
    next
      case dT: True
      let ?T = "ParallelCopy ord ?B pml 0 0 (nComp pml) ?Z ?Z ?per"
      have E1: "fst (Exchange (ParallelCopy ord) uninit pml reg geom d) =
          ParallelCopy ord pml ?T 0 0 (nComp pml) ?Z (nGrowVect pml) ?per"
        by (simp only: E if_P[OF dT])
      have outer: "(fabs (ParallelCopy ord pml ?T 0 0 (nComp pml) ?Z (nGrowVect pml) ?per) ! k) q c =
          (fabs ?T ! fst ?w) ?q' c"
        using k q c False by (simp add: ParallelCopy_nth t)
      have inner: "(fabs ?T ! fst ?w) ?q' c =
          (if ?S' = [] then (fabs ?B ! fst ?w) ?q' c
           else (fabs pml ! fst ?w') (IntVect_minus ?q' (snd ?w')) c)"
        using i qi c by (simp add: ParallelCopy_nth)
      from outer inner buf dT False show ?thesis unfolding E1 Let_def by auto
    qed
  qed
qed

lemma ends_update_other:
  "j \<noteq> i \<Longrightarrow> smallEnd (b[i := x]) j = smallEnd b j"
  "j \<noteq> i \<Longrightarrow> bigEnd (b[i := x]) j = bigEnd b j"
  by (simp_all add: smallEnd_def bigEnd_def)

lemma cell_in_update:
  assumes "i < length b"
  shows "cell_in (b[i := (l, h)]) q \<longleftrightarrow> length q = length b \<and> l \<le> q ! i \<and> q ! i \<le> h \<and>
     (\<forall>j<length b. j \<noteq> i \<longrightarrow> smallEnd b j \<le> q ! j \<and> q ! j \<le> bigEnd b j)"
proof -
  have "(\<forall>j<length b. smallEnd (b[i := (l, h)]) j \<le> q ! j \<and> q ! j \<le> bigEnd (b[i := (l, h)]) j) \<longleftrightarrow>
      l \<le> q ! i \<and> q ! i \<le> h \<and>
      (\<forall>j<length b. j \<noteq> i \<longrightarrow> smallEnd b j \<le> q ! j \<and> q ! j \<le> bigEnd b j)"
    using assms by (metis ends_update(1) ends_update(2) ends_update_other(1) ends_update_other(2))
  then show ?thesis by (simp add: cell_in_iff)
qed

lemma intersects_update:
  assumes "i < length b1" "intersects b1 b2" "l \<le> h" "l \<le> bigEnd b2 i" "smallEnd b2 i \<le> h"
  shows "intersects (b1[i := (l, h)]) b2"
proof -
  have "smallEnd (b1[i := (l, h)]) j \<le> bigEnd (b1[i := (l, h)]) j \<and>
      smallEnd b2 j \<le> bigEnd b2 j \<and>
      smallEnd (b1[i := (l, h)]) j \<le> bigEnd b2 j \<and> smallEnd b2 j \<le> bigEnd (b1[i := (l, h)]) j"
    if "j < length b1" for j
    using assms that unfolding intersects_iff
    by (cases "j = i") (simp_all add: ends_update_other)
  with assms(2) show ?thesis unfolding intersects_iff by simp
qed

lemma boxDiff_loop_covers:
  assumes "i \<le> length b1" "intersects b1 b2" "cell_in b1 q"
    "\<exists>j<i. q ! j < smallEnd b2 j \<or> bigEnd b2 j < q ! j"
  shows "\<exists>bx\<in>set (boxDiff_loop i b1 b2). cell_in bx q"
  using assms
proof (induction i arbitrary: b1)
  case 0
  then show ?case by simp
next
  case (Suc i)
  let ?l1 = "smallEnd b1 i" and ?h1 = "bigEnd b1 i" and ?l2 = "smallEnd b2 i" and ?h2 = "bigEnd b2 i"
  from Suc.prems have i: "i < length b1" by simp
  from Suc.prems(2) i have I: "?l1 \<le> ?h1" "?l2 \<le> ?h2" "?l1 \<le> ?h2" "?l2 \<le> ?h1"
    unfolding intersects_iff by auto
  from Suc.prems(3) i have Q: "?l1 \<le> q ! i" "q ! i \<le> ?h1" and len: "length q = length b1"
    and Qo: "\<forall>j<length b1. smallEnd b1 j \<le> q ! j \<and> q ! j \<le> bigEnd b1 j"
    unfolding cell_in_iff by auto
  consider (below) "q ! i < ?l2" | (above) "?h2 < q ! i" | (mid) "?l2 \<le> q ! i" "q ! i \<le> ?h2"
    by linarith
  then show ?case
  proof cases
    case below
    have "cell_in (b1[i := (?l1, ?l2 - 1)]) q"
      using below Q Qo len by (simp add: cell_in_update[OF i])
    moreover have "b1[i := (?l1, ?l2 - 1)] \<in> set (boxDiff_loop (Suc i) b1 b2)"
      unfolding boxDiff_loop_Suc[OF i] using below Q I by simp
    ultimately show ?thesis by blast
  next
    case above
    have "cell_in (b1[i := (?h2 + 1, ?h1)]) q"
      using above Q Qo len by (simp add: cell_in_update[OF i])
    moreover have "b1[i := (?h2 + 1, ?h1)] \<in> set (boxDiff_loop (Suc i) b1 b2)"
      unfolding boxDiff_loop_Suc[OF i] using above Q I by simp
    ultimately show ?thesis by blast
  next
    case mid
    from Suc.prems(4) mid have ex: "\<exists>j<i. q ! j < smallEnd b2 j \<or> bigEnd b2 j < q ! j"
      by (metis less_Suc_eq not_less)
    have R: "\<exists>bx\<in>set (boxDiff_loop i (b1[i := (l, h)]) b2). cell_in bx q"
      if "l = ?l1 \<or> l = ?l2" "h = ?h1 \<or> h = ?h2" for l h
    proof (rule Suc.IH)
      show "i \<le> length (b1[i := (l, h)])" using i by simp
      show "intersects (b1[i := (l, h)]) b2"
        using that I by (intro intersects_update[OF i Suc.prems(2)]) auto
      show "cell_in (b1[i := (l, h)]) q"
        using that mid Q Qo len by (auto simp: cell_in_update[OF i])
      show "\<exists>j<i. q ! j < smallEnd b2 j \<or> bigEnd b2 j < q ! j" by (rule ex)
    qed
    have b1: "b1[i := (?l1, ?h1)] = b1" by simp
    from R[of ?l1 ?h1] R[of ?l2 ?h1] R[of ?l1 ?h2] R[of ?l2 ?h2]
    show ?thesis
      unfolding boxDiff_loop_Suc[OF i] b1 by (auto split: if_splits)
  qed
qed

lemma boxDiff_covers:
  assumes "cell_in a q" "\<not> cell_in b q"
  shows "list_ex (\<lambda>bx. cell_in bx q) (boxDiff a b)"
proof -
  have nc: "\<not> contains b a"
    using assms unfolding contains_iff cell_in_iff by (metis order_trans)
  show ?thesis
  proof (cases "intersects a b")
    case False
    with nc assms(1) show ?thesis by (simp add: boxDiff_def)
  next
    case True
    then have len: "length a = length b" by (simp add: intersects_iff)
    with assms have "\<exists>j<length a. q ! j < smallEnd b j \<or> bigEnd b j < q ! j"
      unfolding cell_in_iff by (metis not_less)
    from boxDiff_loop_covers[OF order_refl True assms(1) this] nc True
    show ?thesis by (simp add: boxDiff_def list_ex_iff)
  qed
qed

lemma copy_ghost_nth:
  "k < length (boxArray reg) \<Longrightarrow> cell_in (grow_vect (boxArray reg ! k) (nGrowVect reg)) q \<Longrightarrow>
   \<not> cell_in (boxArray reg ! k) q \<Longrightarrow>
     (fabs (copy_ghost reg t) ! k) q 0 = (fabs t ! k) q 0"
  by (simp add: copy_ghost_def boxDiff_covers)

lemma LinComb_frame [simp]:
  "boxArray (LinComb dst a x xc b y yc dc nc ng) = boxArray dst"
  "boxArray (Add dst src sc dc nc ng) = boxArray dst"
  by (simp_all add: LinComb_def Add_def)

lemma totpmlmf_frame [simp]: "boxArray (totpmlmf_of u pml) = boxArray pml"
  by (simp add: totpmlmf_of_def)

lemma totpmlmf_nth:
  assumes "i < length (boxArray pml)" "cell_in (boxArray pml ! i) q"
  shows "(fabs (totpmlmf_of u pml) ! i) q 0 =
     (fabs pml ! i) q 0 + (fabs pml ! i) q 1 + (if nComp pml = 3 then (fabs pml ! i) q 2 else 0)"
  using assms by (simp add: totpmlmf_of_def Add_def LinComb_def on_blocks_nth numeral_2_eq_2)

lemma Exchange_ghost:
  assumes k: "k < length (boxArray reg)"
    and g: "IntVect_max (nGrowVect reg) > 0"
    and q: "cell_in (grow_vect (boxArray reg ! k) (nGrowVect reg)) q"
    and nv: "\<not> cell_in (boxArray reg ! k) q"
  shows "(fabs (snd (Exchange (ParallelCopy ord) uninit pml reg geom 0)) ! k) q 0 =
     (let S = sources (boxArray pml) [] (periodicity geom) q;
          w = last_written ord k q S;
          q' = IntVect_minus q (snd w)
      in if S = [] then (fabs reg ! k) q 0
         else (fabs pml ! fst w) q' 0 + (fabs pml ! fst w) q' 1 +
              (if nComp pml = 3 then (fabs pml ! fst w) q' 2 else 0))"
proof (cases "sources (boxArray pml) [] (periodicity geom) q = []")
  case True
  then show ?thesis using k g q nv
    by (simp add: Exchange_reg copy_ghost_nth ParallelCopy_nth Copy_def on_blocks_nth Let_def)
next
  case False
  let ?w = "last_written ord k q (sources (boxArray pml) [] (periodicity geom) q)"
  note W = last_written_source[OF False, of ord k]
  from W have "(fabs (totpmlmf_of uninit pml) ! fst ?w) (IntVect_minus q (snd ?w)) 0 =
     (fabs pml ! fst ?w) (IntVect_minus q (snd ?w)) 0 + (fabs pml ! fst ?w) (IntVect_minus q (snd ?w)) 1 +
     (if nComp pml = 3 then (fabs pml ! fst ?w) (IntVect_minus q (snd ?w)) 2 else 0)"
    by (intro totpmlmf_nth) simp_all
  then show ?thesis using k g q nv False
    by (simp add: Exchange_reg copy_ghost_nth ParallelCopy_nth Let_def)
qed

lemma shiftIntVect_zero: "shiftIntVect (replicate n 0) = [replicate n 0]"
  by (induction n) (simp_all add: shiftIntVect_def)

lemma IntVect_minus_zero: "IntVect_minus q (replicate (length q) 0) = q"
  unfolding IntVect_minus_def by (induction q) simp_all

lemma sources_member:
  "k < length ba \<Longrightarrow> pit \<in> set (shiftIntVect per) \<Longrightarrow>
   cell_in (grow_vect (ba ! k) sng) (IntVect_minus q pit) \<Longrightarrow> (k, pit) \<in> set (sources ba sng per q)"
  by (auto simp: sources_def)

text \<open>
  A cell of the layer keeps its value when every source the temporary field can take for
  it in the layer holds this value.
\<close>

lemma Exchange_layer_agree:
  assumes k: "k < length (boxArray pml)"
    and qg: "cell_in (grow_vect (boxArray pml ! k) (nGrowVect pml)) q"
    and c: "c < nComp pml"
    and d: "d \<noteq> 0"
    and agree: "\<forall>(i, pit)\<in>set (sources (boxArray reg) [] (periodicity geom) q).
        sources (boxArray pml) [] (periodicity geom) (IntVect_minus q pit) \<noteq> [] \<and>
        (\<forall>(k', pit')\<in>set (sources (boxArray pml) [] (periodicity geom) (IntVect_minus q pit)).
           (fabs pml ! k') (IntVect_minus (IntVect_minus q pit) pit') c = (fabs pml ! k) q c)"
  shows "(fabs (fst (Exchange (ParallelCopy ord) uninit pml reg geom d)) ! k) q c = (fabs pml ! k) q c"
proof (cases "sources (boxArray reg) [] (periodicity geom) q = []")
  case True
  then show ?thesis using Exchange_layer[OF k qg c, of ord uninit reg geom d] by (simp add: Let_def)
next
  case False
  let ?S = "sources (boxArray reg) [] (periodicity geom) q"
  let ?w = "last_written ord k q ?S"
  let ?q' = "IntVect_minus q (snd ?w)"
  let ?S' = "sources (boxArray pml) [] (periodicity geom) ?q'"
  let ?w' = "last_written ord (fst ?w) ?q' ?S'"
  have "(fst ?w, snd ?w) \<in> set ?S" using last_written_mem[OF False, of ord k q] by simp
  with agree have ne: "?S' \<noteq> []"
    and ag: "\<forall>(k', pit')\<in>set ?S'. (fabs pml ! k') (IntVect_minus ?q' pit') c = (fabs pml ! k) q c"
    by blast+
  have "(fst ?w', snd ?w') \<in> set ?S'" using last_written_mem[OF ne, of ord "fst ?w" ?q'] by simp
  with ag have "(fabs pml ! fst ?w') (IntVect_minus ?q' (snd ?w')) c = (fabs pml ! k) q c"
    by blast
  then show ?thesis
    using Exchange_layer[OF k qg c, of ord uninit reg geom d] False ne d by (simp add: Let_def)
qed

lemma Exchange_layer_keeps:
  assumes k: "k < length (boxArray pml)"
    and q: "cell_in (boxArray pml ! k) q"
    and qg: "cell_in (grow_vect (boxArray pml ! k) (nGrowVect pml)) q"
    and c: "c < nComp pml"
    and d: "d \<noteq> 0"
    and per: "periodicity geom = replicate (length q) 0"
    and same: "\<forall>k'<length (boxArray pml). cell_in (boxArray pml ! k') q \<longrightarrow>
        (fabs pml ! k') q c = (fabs pml ! k) q c"
  shows "(fabs (fst (Exchange (ParallelCopy ord) uninit pml reg geom d)) ! k) q c = (fabs pml ! k) q c"
proof (rule Exchange_layer_agree[OF k qg c d])
  have z: "pit = replicate (length q) 0" if "pit \<in> set (shiftIntVect (periodicity geom))" for pit
    using that by (simp add: per shiftIntVect_zero)
  show "\<forall>(i, pit)\<in>set (sources (boxArray reg) [] (periodicity geom) q).
        sources (boxArray pml) [] (periodicity geom) (IntVect_minus q pit) \<noteq> [] \<and>
        (\<forall>(k', pit')\<in>set (sources (boxArray pml) [] (periodicity geom) (IntVect_minus q pit)).
           (fabs pml ! k') (IntVect_minus (IntVect_minus q pit) pit') c = (fabs pml ! k) q c)"
  proof (intro ballI, clarify)
    fix i pit assume "(i, pit) \<in> set (sources (boxArray reg) [] (periodicity geom) q)"
    then have pit: "pit = replicate (length q) 0" using sources_mem(2) z by blast
    have "(k, replicate (length q) 0) \<in> set (sources (boxArray pml) [] (periodicity geom) q)"
      by (rule sources_member[OF k]) (simp_all add: per shiftIntVect_zero IntVect_minus_zero q)
    then have ne: "sources (boxArray pml) [] (periodicity geom) (IntVect_minus q pit) \<noteq> []"
      by (auto simp: pit IntVect_minus_zero)
    have "(fabs pml ! k') (IntVect_minus (IntVect_minus q pit) pit') c = (fabs pml ! k) q c"
      if m: "(k', pit') \<in> set (sources (boxArray pml) [] (periodicity geom) (IntVect_minus q pit))"
      for k' pit'
    proof -
      from m have m': "(k', pit') \<in> set (sources (boxArray pml) [] (periodicity geom) q)"
        by (simp add: pit IntVect_minus_zero)
      from sources_mem(2)[OF m'] have pit': "pit' = replicate (length q) 0" by (rule z)
      from sources_mem(1,3)[OF m'] have "k' < length (boxArray pml)" "cell_in (boxArray pml ! k') q"
        by (simp_all add: pit' IntVect_minus_zero)
      with same show ?thesis by (simp add: pit pit' IntVect_minus_zero)
    qed
    with ne show "sources (boxArray pml) [] (periodicity geom) (IntVect_minus q pit) \<noteq> [] \<and>
        (\<forall>(k', pit')\<in>set (sources (boxArray pml) [] (periodicity geom) (IntVect_minus q pit)).
           (fabs pml ! k') (IntVect_minus (IntVect_minus q pit) pit') c = (fabs pml ! k) q c)"
      by blast
  qed
qed

section \<open>The constructor and the guards of the exchanges\<close>

lemma fine_ba_periodic8: "fine_ba periodic8 [[(0, 7), (0, 7)]] 2 0 [1, 1] [1, 1] = Inr []"
  by code_simp

lemma fine_ba_square8:
  "fine_ba square8 [[(0, 7), (0, 7)]] 2 0 [1, 1] [1, 1] =
     Inr [[(- 2, - 1), (- 2, - 1)], [(0, 7), (- 2, - 1)], [(8, 9), (- 2, - 1)],
          [(- 2, - 1), (8, 9)], [(0, 7), (8, 9)], [(8, 9), (8, 9)],
          [(- 2, - 1), (0, 7)], [(8, 9), (0, 7)]]"
  by (simp add: fine_ba_def MakeBoxArray_square8)

lemma PML_members_simps [simp]:
  "m_ok (PML_members geom cgeom) = False"
  "pml_E_fp (PML_members geom cgeom) = [None, None, None]"
  "pml_B_fp (PML_members geom cgeom) = [None, None, None]"
  "pml_j_fp (PML_members geom cgeom) = [None, None, None]"
  "pml_E_cp (PML_members geom cgeom) = [None, None, None]"
  "pml_B_cp (PML_members geom cgeom) = [None, None, None]"
  "pml_j_cp (PML_members geom cgeom) = [None, None, None]"
  "pml_F_fp (PML_members geom cgeom) = None"
  "pml_F_cp (PML_members geom cgeom) = None"
  "pml_eps_fp (PML_members geom cgeom) = None"
  "pml_mu_fp (PML_members geom cgeom) = None"
  "pml_sigma_fp (PML_members geom cgeom) = None"
  "pml_eps_cp (PML_members geom cgeom) = None"
  "pml_mu_cp (PML_members geom cgeom) = None"
  "pml_sigma_cp (PML_members geom cgeom) = None"
  "sigba_fp (PML_members geom cgeom) = None"
  "sigba_cp (PML_members geom cgeom) = None"
  by (simp_all add: PML_members_def)

lemma PML_new_empty:
  assumes "fine_ba geom grid_ba ncell do_pml_in_domain do_pml_Lo do_pml_Hi = Inr []"
  shows "PML_new warpx new_sigba uninit lev grid_ba geom cgeom ncell delta ref_ratio
     nox_fft noy_fft noz_fft do_nodal do_dive_cleaning do_moving_window do_pml_in_domain
     do_pml_Lo do_pml_Hi = Inr ((PML_members geom cgeom)\<lparr>m_ok := False\<rparr>)"
  by (simp add: PML_new_def assms)

lemma PML_coarse_keeps:
  assumes "PML_coarse warpx new_sigba uninit lev grid_ba cg ncell delta ref_ratio ncomp
     nge ngb ngf do_dive_cleaning do_pml_in_domain do_pml_Lo do_pml_Hi pml = Inr pml'"
  shows "m_ok pml' = m_ok pml \<and> pml_E_fp pml' = pml_E_fp pml \<and> pml_B_fp pml' = pml_B_fp pml \<and>
    pml_j_fp pml' = pml_j_fp pml"
  using assms by (auto simp: PML_coarse_def Let_def split: sum.splits if_splits)

lemma PML_new_nonempty:
  assumes ba: "fine_ba geom grid_ba ncell do_pml_in_domain do_pml_Lo do_pml_Hi = Inr ba" "ba \<noteq> []"
    and run: "PML_new warpx new_sigba uninit lev grid_ba geom cgeom ncell delta ref_ratio
     nox_fft noy_fft noz_fft do_nodal do_dive_cleaning do_moving_window do_pml_in_domain
     do_pml_Lo do_pml_Hi = Inr pml"
  shows "m_ok pml \<and> pml_E_fp pml ! 0 \<noteq> None \<and> pml_B_fp pml ! 0 \<noteq> None \<and> pml_j_fp pml ! 0 \<noteq> None"
proof (cases cgeom)
  case None
  with run ba show ?thesis
    by (auto simp: PML_new_def Let_def zero_field_def split: prod.splits if_splits)
next
  case (Some cg)
  with run ba show ?thesis
    by (auto simp: PML_new_def Let_def zero_field_def split: prod.splits if_splits
        dest!: PML_coarse_keeps)
qed

lemma Exchange_unallocated:
  "patch_type = fine \<and> pml_B_fp P ! 0 = None \<or> patch_type = coarse \<and> pml_B_cp P ! 0 = None \<Longrightarrow>
     ExchangeB pc u patch_type Fs d P = Inr (P, Fs)"
  "patch_type = fine \<and> pml_E_fp P ! 0 = None \<or> patch_type = coarse \<and> pml_E_cp P ! 0 = None \<Longrightarrow>
     ExchangeE pc u patch_type Fs d P = Inr (P, Fs)"
  "patch_type = fine \<and> pml_j_fp P ! 0 = None \<or> patch_type = coarse \<and> pml_j_cp P ! 0 = None \<Longrightarrow>
     CopyJtoPMLs pc patch_type Fs P = Inr P"
  "patch_type = fine \<and> pml_F_fp P = None \<or> patch_type = coarse \<and> pml_F_cp P = None \<Longrightarrow>
     ExchangeF pc u patch_type F d P = Inr (P, F)"
  by (auto simp: ExchangeB_def ExchangeE_def CopyJtoPMLs_def ExchangeF_def split: option.splits PatchType.splits)

section \<open>Claims about the fill routines\<close>

text \<open>
  Claim C2.  For a destination whose vectors hold the indices of the overlap, the low-side
  fill with the constructor's factor \<open>fac = 4 c / (dx\<^sub>a\<^sub>x\<^sub>i\<^sub>s * delta\<^sup>2)\<close> returns, and at every
  index \<open>i\<close> of the overlap \<open>sigma[i] = fac * (glo - i)\<^sup>2\<close>,
  \<open>sigma_cumsum[i] = fac * (glo - i)\<^sup>3 / 3 / c\<close>, and the star vectors hold the same
  formulas at the offset \<open>glo - i - 0.5\<close>, \<open>glo\<close> the low edge of the neighbouring block.
  The high-side fill does the same with the offset \<open>i - ghi - 1\<close> for the primary and
  \<open>i - ghi - 0.5\<close> for the star vectors, \<open>ghi\<close> the neighbour's high edge.
\<close>

theorem fill_profile_formulas:
  assumes fit: "holds sg olo (ohi + 1)" "holds sgs olo (ohi + 1)"
    and same: "m_lo sgc = m_lo sg" "length (data sgc) = length (data sg)"
      "m_lo sgsc = m_lo sgs" "length (data sgsc) = length (data sgs)"
    and ov: "olo = smallEnd overlap idim" "ohi = bigEnd overlap idim"
    and g: "glo = smallEnd grid idim" "ghi = bigEnd grid idim"
    and i: "olo \<le> i" "i \<le> ohi"
    and fac: "fac = SigmaBox_fac c dx delta idim"
  shows "(\<exists>s sc ss ssc. FillLo c idim sg sgc sgs sgsc overlap grid fac = Inr (s, sc, ss, ssc) \<and>
            Sigma_at s i = fac * (real_of_int (glo - i))\<^sup>2 \<and>
            Sigma_at sc i = fac * (real_of_int (glo - i)) ^ 3 / 3 / c \<and>
            Sigma_at ss i = fac * (real_of_int (glo - i) - 0.5)\<^sup>2 \<and>
            Sigma_at ssc i = fac * (real_of_int (glo - i) - 0.5) ^ 3 / 3 / c) \<and>
         (\<exists>s sc ss ssc. FillHi c idim sg sgc sgs sgsc overlap grid fac = Inr (s, sc, ss, ssc) \<and>
            Sigma_at s i = fac * (real_of_int (i - ghi - 1))\<^sup>2 \<and>
            Sigma_at sc i = fac * (real_of_int (i - ghi - 1)) ^ 3 / 3 / c \<and>
            Sigma_at ss i = fac * (real_of_int (i - ghi) - 0.5)\<^sup>2 \<and>
            Sigma_at ssc i = fac * (real_of_int (i - ghi) - 0.5) ^ 3 / 3 / c) \<and>
         fac = 4 * c / (dx ! idim * (real_of_int delta)\<^sup>2)"
proof -
  have fitc: "holds sgc olo (ohi + 1)" and fitsc: "holds sgsc olo (ohi + 1)"
    using fit same by (simp_all add: holds_def)
  have rng: "olo \<le> i" "i < ohi + 2" using i by simp_all
  have h: "holds sg olo (ohi + 2 - 1)" "holds sgc olo (ohi + 2 - 1)"
    "holds sgs olo (ohi + 2 - 1)" "holds sgsc olo (ohi + 2 - 1)"
    using fit fitc fitsc by (simp_all add: holds_def)
  have lo: "\<exists>s sc ss ssc. FillLo c idim sg sgc sgs sgsc overlap grid fac = Inr (s, sc, ss, ssc) \<and>
            Sigma_at s i = fac * (real_of_int (glo - i))\<^sup>2 \<and>
            Sigma_at sc i = fac * (real_of_int (glo - i)) ^ 3 / 3 / c \<and>
            Sigma_at ss i = fac * (real_of_int (glo - i) - 0.5)\<^sup>2 \<and>
            Sigma_at ssc i = fac * (real_of_int (glo - i) - 0.5) ^ 3 / 3 / c"
  proof -
    from FillLo_succeeds[of sg overlap idim sgs sgc sgsc c grid fac] fit same ov
    obtain r where "FillLo c idim sg sgc sgs sgsc overlap grid fac = Inr r" by auto
    then obtain s sc ss ssc where
      run: "FillLo c idim sg sgc sgs sgsc overlap grid fac = Inr (s, sc, ss, ssc)"
      by (cases r) auto
    note F = FillLo_filled[OF run, folded ov g]
    from F have e: "s = sg\<lparr>data := data s\<rparr>" "sc = sgc\<lparr>data := data sc\<rparr>"
      "ss = sgs\<lparr>data := data ss\<rparr>" "ssc = sgsc\<lparr>data := data ssc\<rparr>" by simp_all
    from F have F1: "filled (\<lambda>i. fac * (real_of_int (glo - i))\<^sup>2) (m_lo sg) olo (ohi + 2) (data sg) (data s)"
      by simp
    from F same have F2: "filled (\<lambda>i. fac * (real_of_int (glo - i)) ^ 3 / 3 / c) (m_lo sgc) olo (ohi + 2) (data sgc) (data sc)"
      by simp
    from F have F3: "filled (\<lambda>i. fac * (real_of_int (glo - i) - 0.5)\<^sup>2) (m_lo sgs) olo (ohi + 2) (data sgs) (data ss)"
      by simp
    from F same have F4: "filled (\<lambda>i. fac * (real_of_int (glo - i) - 0.5) ^ 3 / 3 / c) (m_lo sgsc) olo (ohi + 2) (data sgsc) (data ssc)"
      by simp
    show ?thesis
      using run e filled_at[OF F1 rng h(1)] filled_at[OF F2 rng h(2)]
        filled_at[OF F3 rng h(3)] filled_at[OF F4 rng h(4)]
      by metis
  qed
  have hi: "\<exists>s sc ss ssc. FillHi c idim sg sgc sgs sgsc overlap grid fac = Inr (s, sc, ss, ssc) \<and>
            Sigma_at s i = fac * (real_of_int (i - ghi - 1))\<^sup>2 \<and>
            Sigma_at sc i = fac * (real_of_int (i - ghi - 1)) ^ 3 / 3 / c \<and>
            Sigma_at ss i = fac * (real_of_int (i - ghi) - 0.5)\<^sup>2 \<and>
            Sigma_at ssc i = fac * (real_of_int (i - ghi) - 0.5) ^ 3 / 3 / c"
  proof -
    from FillHi_succeeds[of sg overlap idim sgs sgc sgsc c grid fac] fit same ov
    obtain r where "FillHi c idim sg sgc sgs sgsc overlap grid fac = Inr r" by auto
    then obtain s sc ss ssc where
      run: "FillHi c idim sg sgc sgs sgsc overlap grid fac = Inr (s, sc, ss, ssc)"
      by (cases r) auto
    note F = FillHi_filled[OF run, folded ov g]
    from F have e: "s = sg\<lparr>data := data s\<rparr>" "sc = sgc\<lparr>data := data sc\<rparr>"
      "ss = sgs\<lparr>data := data ss\<rparr>" "ssc = sgsc\<lparr>data := data ssc\<rparr>" by simp_all
    from F have F1: "filled (\<lambda>i. fac * (real_of_int (i - ghi - 1))\<^sup>2) (m_lo sg) olo (ohi + 2) (data sg) (data s)"
      by simp
    from F same have F2: "filled (\<lambda>i. fac * (real_of_int (i - ghi - 1)) ^ 3 / 3 / c) (m_lo sgc) olo (ohi + 2) (data sgc) (data sc)"
      by simp
    from F have F3: "filled (\<lambda>i. fac * (real_of_int (i - ghi) - 0.5)\<^sup>2) (m_lo sgs) olo (ohi + 2) (data sgs) (data ss)"
      by simp
    from F same have F4: "filled (\<lambda>i. fac * (real_of_int (i - ghi) - 0.5) ^ 3 / 3 / c) (m_lo sgsc) olo (ohi + 2) (data sgsc) (data ssc)"
      by simp
    show ?thesis
      using run e filled_at[OF F1 rng h(1)] filled_at[OF F2 rng h(2)]
        filled_at[OF F3 rng h(3)] filled_at[OF F4 rng h(4)]
      by metis
  qed
  have "fac = 4 * c / (dx ! idim * (real_of_int delta)\<^sup>2)"
    using fac by (simp add: SigmaBox_fac_def power2_eq_square)
  with lo hi show ?thesis by blast
qed

theorem fill_profile_formulas_witness:
  "(\<exists>s sc ss ssc. FillLo 1 0 zeros4 zeros4 zeros4 zeros4 [(0, 1)] [(5, 9)] 1 = Inr (s, sc, ss, ssc) \<and>
      Sigma_at s 1 = 16 \<and> Sigma_at sc 1 = 64 / 3 \<and> Sigma_at ss 1 = 49 / 4 \<and>
      Sigma_at ssc 1 = 343 / 24) \<and>
   (\<exists>s sc ss ssc. FillHi 1 0 zeros4 zeros4 zeros4 zeros4 [(0, 1)] [(5, 9)] 1 = Inr (s, sc, ss, ssc) \<and>
      Sigma_at s 1 = 81 \<and> Sigma_at sc 1 = - 243 \<and> Sigma_at ss 1 = 289 / 4 \<and>
      Sigma_at ssc 1 = - 4913 / 24) \<and>
   SigmaBox_fac 1 [1] 2 0 = 1"
proof -
  have f: "SigmaBox_fac 1 [1] 2 0 = 1" by (simp add: SigmaBox_fac_def)
  have "holds zeros4 0 (1 + 1)" "m_lo zeros4 = m_lo zeros4"
    "length (data zeros4) = length (data zeros4)"
    "(0::int) = smallEnd [(0, 1)] 0" "(1::int) = bigEnd [(0, 1)] 0"
    "(5::int) = smallEnd [(5, 9)] 0" "(9::int) = bigEnd [(5, 9)] 0" "(0::int) \<le> 1" "(1::int) \<le> 1"
    "(1::real) = SigmaBox_fac 1 [1] 2 0"
    by (simp_all add: holds_def zeros4_def smallEnd_def bigEnd_def f)
  from fill_profile_formulas[OF this(1) this(1) this(2) this(3) this(2) this(3) this(4-10)]
  show ?thesis by (simp add: f power2_eq_square power3_eq_cube)
qed

text \<open>
  Claim C7, as stated, fails: the primary vectors are written at the index
  \<open>overlap_high + 1\<close> as well.  With the overlap \<open>[0, 1]\<close> the low-side fill changes
  \<open>sigma[2]\<close> from 0 to 216.
\<close>

theorem fill_primary_range_counterexample:
  "FillLo 1 0 zeros4 zeros4 zeros4 zeros4 [(0, 1)] [(5, 9)] 24 =
     Inr (zeros4\<lparr>data := [600, 384, 216, 0]\<rparr>, zeros4\<lparr>data := [1000, 512, 216, 0]\<rparr>,
          zeros4\<lparr>data := [486, 294, 150, 0]\<rparr>, zeros4\<lparr>data := [729, 343, 125, 0]\<rparr>) \<and>
   smallEnd [(0, 1)] 0 = 0 \<and> bigEnd [(0, 1)] 0 = 1 \<and>
   Sigma_at zeros4 2 = 0 \<and> Sigma_at (zeros4\<lparr>data := [600, 384, 216, 0]\<rparr>) 2 = 216"
  using FillLo_eval by (simp add: smallEnd_def bigEnd_def Sigma_at_def zeros4_def)

text \<open>
  Claim C7, amended.  A fill call that returns writes the primary vectors \<open>sigma\<close>,
  \<open>sigma_cumsum\<close> and the star vectors alike at exactly the indices
  \<open>overlap_low, ..., overlap_high + 1\<close> (\<open>filled\<close>: the entries for these indices hold the
  fill formula, every other entry is the old one, the length is the old one), and leaves
  the index ranges \<open>m_lo\<close>, \<open>m_hi\<close> of the four vectors as they were.
\<close>

theorem fill_written_range:
  "(FillLo c idim sg sgc sgs sgsc overlap grid fac = Inr (s, sc, ss, ssc) \<longrightarrow>
     s = sg\<lparr>data := data s\<rparr> \<and> sc = sgc\<lparr>data := data sc\<rparr> \<and>
     ss = sgs\<lparr>data := data ss\<rparr> \<and> ssc = sgsc\<lparr>data := data ssc\<rparr> \<and>
     filled (\<lambda>i. fac * (real_of_int (smallEnd grid idim - i))\<^sup>2) (m_lo sg)
       (smallEnd overlap idim) (bigEnd overlap idim + 1 + 1) (data sg) (data s) \<and>
     filled (\<lambda>i. fac * (real_of_int (smallEnd grid idim - i)) ^ 3 / 3 / c) (m_lo sg)
       (smallEnd overlap idim) (bigEnd overlap idim + 1 + 1) (data sgc) (data sc) \<and>
     filled (\<lambda>i. fac * (real_of_int (smallEnd grid idim - i) - 0.5)\<^sup>2) (m_lo sgs)
       (smallEnd overlap idim) (bigEnd overlap idim + 1 + 1) (data sgs) (data ss) \<and>
     filled (\<lambda>i. fac * (real_of_int (smallEnd grid idim - i) - 0.5) ^ 3 / 3 / c) (m_lo sgs)
       (smallEnd overlap idim) (bigEnd overlap idim + 1 + 1) (data sgsc) (data ssc)) \<and>
   (FillHi c idim sg sgc sgs sgsc overlap grid fac = Inr (s', sc', ss', ssc') \<longrightarrow>
     s' = sg\<lparr>data := data s'\<rparr> \<and> sc' = sgc\<lparr>data := data sc'\<rparr> \<and>
     ss' = sgs\<lparr>data := data ss'\<rparr> \<and> ssc' = sgsc\<lparr>data := data ssc'\<rparr> \<and>
     filled (\<lambda>i. fac * (real_of_int (i - bigEnd grid idim - 1))\<^sup>2) (m_lo sg)
       (smallEnd overlap idim) (bigEnd overlap idim + 1 + 1) (data sg) (data s') \<and>
     filled (\<lambda>i. fac * (real_of_int (i - bigEnd grid idim - 1)) ^ 3 / 3 / c) (m_lo sg)
       (smallEnd overlap idim) (bigEnd overlap idim + 1 + 1) (data sgc) (data sc') \<and>
     filled (\<lambda>i. fac * (real_of_int (i - bigEnd grid idim) - 0.5)\<^sup>2) (m_lo sgs)
       (smallEnd overlap idim) (bigEnd overlap idim + 1 + 1) (data sgs) (data ss') \<and>
     filled (\<lambda>i. fac * (real_of_int (i - bigEnd grid idim) - 0.5) ^ 3 / 3 / c) (m_lo sgs)
       (smallEnd overlap idim) (bigEnd overlap idim + 1 + 1) (data sgsc) (data ssc'))"
proof -
  have two: "bigEnd overlap idim + 1 + 1 = bigEnd overlap idim + 2" by simp
  show ?thesis
    unfolding two
  proof (intro conjI impI)
  qed (use FillLo_filled[of c idim sg sgc sgs sgsc overlap grid fac s sc ss ssc]
        FillHi_filled[of c idim sg sgc sgs sgsc overlap grid fac s' sc' ss' ssc'] in blast)+
qed

theorem fill_written_range_witness:
  "FillLo 1 0 zeros4 zeros4 zeros4 zeros4 [(0, 1)] [(5, 9)] 24 =
     Inr (zeros4\<lparr>data := [600, 384, 216, 0]\<rparr>, zeros4\<lparr>data := [1000, 512, 216, 0]\<rparr>,
          zeros4\<lparr>data := [486, 294, 150, 0]\<rparr>, zeros4\<lparr>data := [729, 343, 125, 0]\<rparr>) \<and>
   FillHi 1 0 zeros4 zeros4 zeros4 zeros4 [(0, 1)] [(-9, -1)] 24 =
     Inr (zeros4\<lparr>data := [0, 24, 96, 0]\<rparr>, zeros4\<lparr>data := [0, 8, 64, 0]\<rparr>,
          zeros4\<lparr>data := [6, 54, 150, 0]\<rparr>, zeros4\<lparr>data := [1, 27, 125, 0]\<rparr>) \<and>
   filled (\<lambda>i. 24 * (real_of_int (5 - i))\<^sup>2) 0 0 3 [0, 0, 0, 0] [600, 384, 216, 0] \<and>
   filled (\<lambda>i. 24 * (real_of_int (i - - 1) - 0.5) ^ 3 / 3 / 1) 0 0 3 [0, 0, 0, 0] [1, 27, 125, 0]"
proof -
  note lo = fill_written_range[of 1 0 zeros4 zeros4 zeros4 zeros4 "[(0, 1)]" "[(5, 9)]" 24
      "zeros4\<lparr>data := [600, 384, 216, 0]\<rparr>" "zeros4\<lparr>data := [1000, 512, 216, 0]\<rparr>"
      "zeros4\<lparr>data := [486, 294, 150, 0]\<rparr>" "zeros4\<lparr>data := [729, 343, 125, 0]\<rparr>",
      THEN conjunct1, rule_format, OF FillLo_eval]
  note hi = fill_written_range[of 1 0 zeros4 zeros4 zeros4 zeros4 "[(0, 1)]" "[(-9, -1)]" 24
      _ _ _ _
      "zeros4\<lparr>data := [0, 24, 96, 0]\<rparr>" "zeros4\<lparr>data := [0, 8, 64, 0]\<rparr>"
      "zeros4\<lparr>data := [6, 54, 150, 0]\<rparr>" "zeros4\<lparr>data := [1, 27, 125, 0]\<rparr>",
      THEN conjunct2, rule_format, OF FillHi_eval]
  from lo have "filled (\<lambda>i. 24 * (real_of_int (5 - i))\<^sup>2) 0 0 3 [0, 0, 0, 0] [600, 384, 216, 0]"
    by (simp add: smallEnd_def bigEnd_def zeros4_def)
  moreover from hi have
    "filled (\<lambda>i. 24 * (real_of_int (i - - 1) - 0.5) ^ 3 / 3 / 1) 0 0 3 [0, 0, 0, 0] [1, 27, 125, 0]"
    by (simp add: smallEnd_def bigEnd_def zeros4_def)
  ultimately show ?thesis using FillLo_eval FillHi_eval by simp
qed

section \<open>Claims about the decay factors\<close>

text \<open>
  Claim C3.  A call with the time step that is cached for the field kind returns the
  state as it is, whatever the factors and the cell sizes are: nothing is recomputed; so a
  second call with the same \<open>dt\<close> changes nothing.  The two caches are independent: a
  computation for E leaves \<open>dt_B\<close> and every factor of the star profiles as they were,
  and a computation for B leaves \<open>dt_E\<close> and every factor of the primary profiles.  A
  call with another \<open>dt\<close> recomputes every factor of every block and axis (\<open>doneB\<close>,
  \<open>doneE\<close>: each factor vector is the exponential of its whole profile) and caches \<open>dt\<close>.
\<close>

theorem factor_cache:
  "MultiSigmaBox_ComputePMLFactorsB dx (dt_B m) m = Inr m \<and>
   MultiSigmaBox_ComputePMLFactorsE dx (dt_E m) m = Inr m \<and>
   (MultiSigmaBox_ComputePMLFactorsB dx dt m = Inr mB \<longrightarrow>
      MultiSigmaBox_ComputePMLFactorsB dx' dt mB = Inr mB \<and>
      dt_E mB = dt_E m \<and> list_all2 (list_all2 keepsE) (sboxes m) (sboxes mB)) \<and>
   (MultiSigmaBox_ComputePMLFactorsE dx dt m = Inr mE \<longrightarrow>
      MultiSigmaBox_ComputePMLFactorsE dx' dt mE = Inr mE \<and>
      dt_B mE = dt_B m \<and> list_all2 (list_all2 keepsB) (sboxes m) (sboxes mE)) \<and>
   (sized m \<and> dt \<noteq> dt_B m \<longrightarrow>
      MultiSigmaBox_ComputePMLFactorsB dx dt m
        = Inr (m\<lparr>dt_B := dt, sboxes := map (doneB dx dt) (sboxes m)\<rparr>)) \<and>
   (sized m \<and> dt \<noteq> dt_E m \<longrightarrow>
      MultiSigmaBox_ComputePMLFactorsE dx dt m
        = Inr (m\<lparr>dt_E := dt, sboxes := map (doneE dx dt) (sboxes m)\<rparr>))"
proof (intro conjI impI)
  show "MultiSigmaBox_ComputePMLFactorsB dx (dt_B m) m = Inr m"
    by (simp add: MultiSigmaBox_ComputePMLFactorsB_def)
  show "MultiSigmaBox_ComputePMLFactorsE dx (dt_E m) m = Inr m"
    by (simp add: MultiSigmaBox_ComputePMLFactorsE_def)
next
  assume r: "MultiSigmaBox_ComputePMLFactorsB dx dt m = Inr mB"
  from MultiSigmaBox_B_cached[OF r]
  show "MultiSigmaBox_ComputePMLFactorsB dx' dt mB = Inr mB"
    by (simp add: MultiSigmaBox_ComputePMLFactorsB_def)
  from MultiSigmaBox_B_keepsE[OF r]
  show "dt_E mB = dt_E m" "list_all2 (list_all2 keepsE) (sboxes m) (sboxes mB)"
    by simp_all
next
  assume r: "MultiSigmaBox_ComputePMLFactorsE dx dt m = Inr mE"
  from MultiSigmaBox_E_cached[OF r]
  show "MultiSigmaBox_ComputePMLFactorsE dx' dt mE = Inr mE"
    by (simp add: MultiSigmaBox_ComputePMLFactorsE_def)
  from MultiSigmaBox_E_keepsB[OF r]
  show "dt_B mE = dt_B m" "list_all2 (list_all2 keepsB) (sboxes m) (sboxes mE)"
    by simp_all
next
  assume "sized m \<and> dt \<noteq> dt_B m"
  then show "MultiSigmaBox_ComputePMLFactorsB dx dt m
        = Inr (m\<lparr>dt_B := dt, sboxes := map (doneB dx dt) (sboxes m)\<rparr>)"
    by (simp add: MultiSigmaBox_B_recompute)
next
  assume "sized m \<and> dt \<noteq> dt_E m"
  then show "MultiSigmaBox_ComputePMLFactorsE dx dt m
        = Inr (m\<lparr>dt_E := dt, sboxes := map (doneE dx dt) (sboxes m)\<rparr>)"
    by (simp add: MultiSigmaBox_E_recompute)
qed

theorem factor_cache_witness:
  "MultiSigmaBox_ComputePMLFactorsB [1] 1 msb0
     = Inr (msb0\<lparr>dt_B := 1, sboxes := [[axis0\<lparr>sigma_star_fac := zeros2\<lparr>data := [1, 1]\<rparr>,
              sigma_star_cumsum_fac := zeros2\<lparr>data := [1, 1]\<rparr>\<rparr>]]\<rparr>) \<and>
   MultiSigmaBox_ComputePMLFactorsB [7] 1
       (msb0\<lparr>dt_B := 1, sboxes := [[axis0\<lparr>sigma_star_fac := zeros2\<lparr>data := [1, 1]\<rparr>,
              sigma_star_cumsum_fac := zeros2\<lparr>data := [1, 1]\<rparr>\<rparr>]]\<rparr>)
     = Inr (msb0\<lparr>dt_B := 1, sboxes := [[axis0\<lparr>sigma_star_fac := zeros2\<lparr>data := [1, 1]\<rparr>,
              sigma_star_cumsum_fac := zeros2\<lparr>data := [1, 1]\<rparr>\<rparr>]]\<rparr>) \<and>
   MultiSigmaBox_ComputePMLFactorsE [1] 1 msb0
     = Inr (msb0\<lparr>dt_E := 1, sboxes := [[axis0\<lparr>sigma_fac := zeros2\<lparr>data := [1, 1]\<rparr>,
              sigma_cumsum_fac := zeros2\<lparr>data := [1, 1]\<rparr>\<rparr>]]\<rparr>) \<and>
   MultiSigmaBox_ComputePMLFactorsE [7] 1
       (msb0\<lparr>dt_E := 1, sboxes := [[axis0\<lparr>sigma_fac := zeros2\<lparr>data := [1, 1]\<rparr>,
              sigma_cumsum_fac := zeros2\<lparr>data := [1, 1]\<rparr>\<rparr>]]\<rparr>)
     = Inr (msb0\<lparr>dt_E := 1, sboxes := [[axis0\<lparr>sigma_fac := zeros2\<lparr>data := [1, 1]\<rparr>,
              sigma_cumsum_fac := zeros2\<lparr>data := [1, 1]\<rparr>\<rparr>]]\<rparr>)"
proof -
  have ne: "sized msb0 \<and> (1::real) \<noteq> dt_B msb0" "sized msb0 \<and> (1::real) \<noteq> dt_E msb0"
    using msb0_sized by (simp_all add: msb0_def)
  note c3 = factor_cache[of "[1]" msb0 1 _ "[7]", THEN conjunct2, THEN conjunct2, THEN conjunct1,
      rule_format]
  note c4 = factor_cache[of "[1]" msb0 1 _ "[7]", THEN conjunct2, THEN conjunct2, THEN conjunct2,
      THEN conjunct1, rule_format]
  note c5 = factor_cache[of "[1]" msb0 1 _ "[7]", THEN conjunct2, THEN conjunct2, THEN conjunct2,
      THEN conjunct2, THEN conjunct1, rule_format, OF ne(1)]
  note c6 = factor_cache[of "[1]" msb0 1 _ "[7]", THEN conjunct2, THEN conjunct2, THEN conjunct2,
      THEN conjunct2, THEN conjunct2, rule_format, OF ne(2)]
  note b = c5[unfolded msb0_doneB]
  note e = c6[unfolded msb0_doneE]
  note b2 = c3[OF b, THEN conjunct1]
  note e2 = c4[OF e, THEN conjunct1]
  from b b2 e e2 show ?thesis by (intro conjI)
qed

text \<open>
  Claim C4.  On a layer whose vectors have the sizes the constructor gives them, a
  computation of one kind with a time step that is not the one cached for this kind
  returns (whatever the time step cached for the other kind is, so also for the E kind
  right after the B kind with the same time step, as \<open>PML::ComputePMLFactors\<close> calls
  them), and in its result, for every block \<open>k\<close>, axis \<open>a\<close> and index \<open>j\<close>: the B kind
  has written \<open>sigma_star_fac[j] = exp (- sigma_star[j] * dt)\<close> and
  \<open>sigma_star_cumsum_fac[j] = exp (- sigma_star_cumsum[j] * dx[a])\<close>, and the E kind
  \<open>sigma_fac[j] = exp (- sigma[j] * dt)\<close> and
  \<open>sigma_cumsum_fac[j] = exp (- sigma_cumsum[j] * dx[a])\<close>; each kind reads the profiles
  of the layer as they were and leaves the factors of the other kind alone.
\<close>

theorem factors_recomputed:
  assumes "sized m"
  shows "(dt \<noteq> dt_B m \<longrightarrow>
         (\<exists>mB. MultiSigmaBox_ComputePMLFactorsB dx dt m = Inr mB \<and>
           (\<forall>k<length (sboxes m). \<forall>a<length (sboxes m ! k).
              (\<forall>j<length (data (sigma_star (sboxes m ! k ! a))).
                 data (sigma_star_fac (sboxes mB ! k ! a)) ! j
                   = exp (- data (sigma_star (sboxes m ! k ! a)) ! j * dt) \<and>
                 data (sigma_star_cumsum_fac (sboxes mB ! k ! a)) ! j
                   = exp (- data (sigma_star_cumsum (sboxes m ! k ! a)) ! j * dx ! a)) \<and>
              sigma_fac (sboxes mB ! k ! a) = sigma_fac (sboxes m ! k ! a) \<and>
              sigma_cumsum_fac (sboxes mB ! k ! a) = sigma_cumsum_fac (sboxes m ! k ! a)))) \<and>
        (dt \<noteq> dt_E m \<longrightarrow>
         (\<exists>mE. MultiSigmaBox_ComputePMLFactorsE dx dt m = Inr mE \<and>
           (\<forall>k<length (sboxes m). \<forall>a<length (sboxes m ! k).
              (\<forall>j<length (data (sigma (sboxes m ! k ! a))).
                 data (sigma_fac (sboxes mE ! k ! a)) ! j
                   = exp (- data (sigma (sboxes m ! k ! a)) ! j * dt) \<and>
                 data (sigma_cumsum_fac (sboxes mE ! k ! a)) ! j
                   = exp (- data (sigma_cumsum (sboxes m ! k ! a)) ! j * dx ! a)) \<and>
              sigma_star_fac (sboxes mE ! k ! a) = sigma_star_fac (sboxes m ! k ! a) \<and>
              sigma_star_cumsum_fac (sboxes mE ! k ! a)
                = sigma_star_cumsum_fac (sboxes m ! k ! a))))"
proof (intro conjI impI)
  assume nb: "dt \<noteq> dt_B m"
  let ?mB = "m\<lparr>dt_B := dt, sboxes := map (doneB dx dt) (sboxes m)\<rparr>"
  have "\<forall>k<length (sboxes m). \<forall>a<length (sboxes m ! k).
              (\<forall>j<length (data (sigma_star (sboxes m ! k ! a))).
                 data (sigma_star_fac (sboxes ?mB ! k ! a)) ! j
                   = exp (- data (sigma_star (sboxes m ! k ! a)) ! j * dt) \<and>
                 data (sigma_star_cumsum_fac (sboxes ?mB ! k ! a)) ! j
                   = exp (- data (sigma_star_cumsum (sboxes m ! k ! a)) ! j * dx ! a)) \<and>
              sigma_fac (sboxes ?mB ! k ! a) = sigma_fac (sboxes m ! k ! a) \<and>
              sigma_cumsum_fac (sboxes ?mB ! k ! a) = sigma_cumsum_fac (sboxes m ! k ! a)"
  proof (intro allI impI)
    fix k a assume k: "k < length (sboxes m)" and a: "a < length (sboxes m ! k)"
    from sized_nth[OF assms k a]
    have len: "length (data (sigma_star_cumsum (sboxes m ! k ! a)))
        = length (data (sigma_star (sboxes m ! k ! a)))"
      by (simp add: same_size_def Let_def)
    show "(\<forall>j<length (data (sigma_star (sboxes m ! k ! a))).
                 data (sigma_star_fac (sboxes ?mB ! k ! a)) ! j
                   = exp (- data (sigma_star (sboxes m ! k ! a)) ! j * dt) \<and>
                 data (sigma_star_cumsum_fac (sboxes ?mB ! k ! a)) ! j
                   = exp (- data (sigma_star_cumsum (sboxes m ! k ! a)) ! j * dx ! a)) \<and>
              sigma_fac (sboxes ?mB ! k ! a) = sigma_fac (sboxes m ! k ! a) \<and>
              sigma_cumsum_fac (sboxes ?mB ! k ! a) = sigma_cumsum_fac (sboxes m ! k ! a)"
      using k a len by (simp add: doneB_nth)
  qed
  with MultiSigmaBox_B_recompute[OF assms nb, of dx]
  show "\<exists>mB. MultiSigmaBox_ComputePMLFactorsB dx dt m = Inr mB \<and>
           (\<forall>k<length (sboxes m). \<forall>a<length (sboxes m ! k).
              (\<forall>j<length (data (sigma_star (sboxes m ! k ! a))).
                 data (sigma_star_fac (sboxes mB ! k ! a)) ! j
                   = exp (- data (sigma_star (sboxes m ! k ! a)) ! j * dt) \<and>
                 data (sigma_star_cumsum_fac (sboxes mB ! k ! a)) ! j
                   = exp (- data (sigma_star_cumsum (sboxes m ! k ! a)) ! j * dx ! a)) \<and>
              sigma_fac (sboxes mB ! k ! a) = sigma_fac (sboxes m ! k ! a) \<and>
              sigma_cumsum_fac (sboxes mB ! k ! a) = sigma_cumsum_fac (sboxes m ! k ! a))"
    by (intro exI[of _ ?mB] conjI)
next
  assume ne: "dt \<noteq> dt_E m"
  let ?mE = "m\<lparr>dt_E := dt, sboxes := map (doneE dx dt) (sboxes m)\<rparr>"
  have "\<forall>k<length (sboxes m). \<forall>a<length (sboxes m ! k).
              (\<forall>j<length (data (sigma (sboxes m ! k ! a))).
                 data (sigma_fac (sboxes ?mE ! k ! a)) ! j
                   = exp (- data (sigma (sboxes m ! k ! a)) ! j * dt) \<and>
                 data (sigma_cumsum_fac (sboxes ?mE ! k ! a)) ! j
                   = exp (- data (sigma_cumsum (sboxes m ! k ! a)) ! j * dx ! a)) \<and>
              sigma_star_fac (sboxes ?mE ! k ! a) = sigma_star_fac (sboxes m ! k ! a) \<and>
              sigma_star_cumsum_fac (sboxes ?mE ! k ! a)
                = sigma_star_cumsum_fac (sboxes m ! k ! a)"
  proof (intro allI impI)
    fix k a assume k: "k < length (sboxes m)" and a: "a < length (sboxes m ! k)"
    from sized_nth[OF assms k a]
    have len: "length (data (sigma_cumsum (sboxes m ! k ! a)))
        = length (data (sigma (sboxes m ! k ! a)))"
      by (simp add: same_size_def Let_def)
    show "(\<forall>j<length (data (sigma (sboxes m ! k ! a))).
                 data (sigma_fac (sboxes ?mE ! k ! a)) ! j
                   = exp (- data (sigma (sboxes m ! k ! a)) ! j * dt) \<and>
                 data (sigma_cumsum_fac (sboxes ?mE ! k ! a)) ! j
                   = exp (- data (sigma_cumsum (sboxes m ! k ! a)) ! j * dx ! a)) \<and>
              sigma_star_fac (sboxes ?mE ! k ! a) = sigma_star_fac (sboxes m ! k ! a) \<and>
              sigma_star_cumsum_fac (sboxes ?mE ! k ! a)
                = sigma_star_cumsum_fac (sboxes m ! k ! a)"
      using k a len by (simp add: doneE_nth)
  qed
  with MultiSigmaBox_E_recompute[OF assms ne, of dx]
  show "\<exists>mE. MultiSigmaBox_ComputePMLFactorsE dx dt m = Inr mE \<and>
           (\<forall>k<length (sboxes m). \<forall>a<length (sboxes m ! k).
              (\<forall>j<length (data (sigma (sboxes m ! k ! a))).
                 data (sigma_fac (sboxes mE ! k ! a)) ! j
                   = exp (- data (sigma (sboxes m ! k ! a)) ! j * dt) \<and>
                 data (sigma_cumsum_fac (sboxes mE ! k ! a)) ! j
                   = exp (- data (sigma_cumsum (sboxes m ! k ! a)) ! j * dx ! a)) \<and>
              sigma_star_fac (sboxes mE ! k ! a) = sigma_star_fac (sboxes m ! k ! a) \<and>
              sigma_star_cumsum_fac (sboxes mE ! k ! a)
                = sigma_star_cumsum_fac (sboxes m ! k ! a))"
    by (intro exI[of _ ?mE] conjI)
qed

theorem factors_recomputed_witness:
  "(\<exists>mB. MultiSigmaBox_ComputePMLFactorsB [1] 1 msb0 = Inr mB \<and>
      data (sigma_star_fac (sboxes mB ! 0 ! 0)) ! 1 = 1 \<and>
      data (sigma_star_cumsum_fac (sboxes mB ! 0 ! 0)) ! 1 = 1 \<and>
      sigma_fac (sboxes mB ! 0 ! 0) = zeros2) \<and>
   (\<exists>mE. MultiSigmaBox_ComputePMLFactorsE [1] 1 msb0 = Inr mE \<and>
      data (sigma_fac (sboxes mE ! 0 ! 0)) ! 1 = 1 \<and>
      data (sigma_cumsum_fac (sboxes mE ! 0 ! 0)) ! 1 = 1 \<and>
      sigma_star_fac (sboxes mE ! 0 ! 0) = zeros2) \<and>
   (\<exists>mB mE. MultiSigmaBox_ComputePMLFactorsB [1] 1 msb0 = Inr mB \<and> dt_B mB = 1 \<and>
      MultiSigmaBox_ComputePMLFactorsE [1] 1 mB = Inr mE \<and>
      data (sigma_fac (sboxes mE ! 0 ! 0)) ! 1 = 1 \<and>
      data (sigma_cumsum_fac (sboxes mE ! 0 ! 0)) ! 1 = 1 \<and>
      data (sigma_star_fac (sboxes mE ! 0 ! 0)) ! 1 = 1)"
proof -
  have h: "sized msb0" "(1::real) \<noteq> dt_B msb0" "(1::real) \<noteq> dt_E msb0"
    using msb0_sized by (simp_all add: msb0_def)
  from factors_recomputed[OF h(1), where dt = 1 and dx = "[1]", THEN conjunct1, rule_format, OF h(2)]
  obtain mB where b: "MultiSigmaBox_ComputePMLFactorsB [1] 1 msb0 = Inr mB"
    and bq: "\<forall>k<length (sboxes msb0). \<forall>a<length (sboxes msb0 ! k).
              (\<forall>j<length (data (sigma_star (sboxes msb0 ! k ! a))).
                 data (sigma_star_fac (sboxes mB ! k ! a)) ! j
                   = exp (- data (sigma_star (sboxes msb0 ! k ! a)) ! j * 1) \<and>
                 data (sigma_star_cumsum_fac (sboxes mB ! k ! a)) ! j
                   = exp (- data (sigma_star_cumsum (sboxes msb0 ! k ! a)) ! j * [1] ! a)) \<and>
              sigma_fac (sboxes mB ! k ! a) = sigma_fac (sboxes msb0 ! k ! a) \<and>
              sigma_cumsum_fac (sboxes mB ! k ! a) = sigma_cumsum_fac (sboxes msb0 ! k ! a)"
    by blast
  from bq[rule_format, of 0 0] have b1:
    "data (sigma_star_fac (sboxes mB ! 0 ! 0)) ! 1 = 1"
    "data (sigma_star_cumsum_fac (sboxes mB ! 0 ! 0)) ! 1 = 1"
    "sigma_fac (sboxes mB ! 0 ! 0) = zeros2"
    by (simp_all add: msb0_def axis0_def zeros2_def)
  from factors_recomputed[OF h(1), where dt = 1 and dx = "[1]", THEN conjunct2, rule_format, OF h(3)]
  obtain mE where e: "MultiSigmaBox_ComputePMLFactorsE [1] 1 msb0 = Inr mE"
    and eq: "\<forall>k<length (sboxes msb0). \<forall>a<length (sboxes msb0 ! k).
              (\<forall>j<length (data (sigma (sboxes msb0 ! k ! a))).
                 data (sigma_fac (sboxes mE ! k ! a)) ! j
                   = exp (- data (sigma (sboxes msb0 ! k ! a)) ! j * 1) \<and>
                 data (sigma_cumsum_fac (sboxes mE ! k ! a)) ! j
                   = exp (- data (sigma_cumsum (sboxes msb0 ! k ! a)) ! j * [1] ! a)) \<and>
              sigma_star_fac (sboxes mE ! k ! a) = sigma_star_fac (sboxes msb0 ! k ! a) \<and>
              sigma_star_cumsum_fac (sboxes mE ! k ! a)
                = sigma_star_cumsum_fac (sboxes msb0 ! k ! a)"
    by blast
  from eq[rule_format, of 0 0] have e1:
    "data (sigma_fac (sboxes mE ! 0 ! 0)) ! 1 = 1"
    "data (sigma_cumsum_fac (sboxes mE ! 0 ! 0)) ! 1 = 1"
    "sigma_star_fac (sboxes mE ! 0 ! 0) = zeros2"
    by (simp_all add: msb0_def axis0_def zeros2_def)
  let ?mB = "msb0\<lparr>dt_B := 1, sboxes := map (doneB [1] 1) (sboxes msb0)\<rparr>"
  have B: "MultiSigmaBox_ComputePMLFactorsB [1] 1 msb0 = Inr ?mB"
    by (rule MultiSigmaBox_B_recompute[OF h(1,2)])
  have s: "sized ?mB" "(1::real) \<noteq> dt_E ?mB" "dt_B ?mB = 1"
    unfolding msb0_doneB by (simp_all add: sized_def msb0_def axis0_def zeros2_def same_size_def)
  from factors_recomputed[OF s(1), where dt = 1 and dx = "[1]", THEN conjunct2, rule_format, OF s(2)]
  obtain mE' where e': "MultiSigmaBox_ComputePMLFactorsE [1] 1 ?mB = Inr mE'"
    and eq': "\<forall>k<length (sboxes ?mB). \<forall>a<length (sboxes ?mB ! k).
              (\<forall>j<length (data (sigma (sboxes ?mB ! k ! a))).
                 data (sigma_fac (sboxes mE' ! k ! a)) ! j
                   = exp (- data (sigma (sboxes ?mB ! k ! a)) ! j * 1) \<and>
                 data (sigma_cumsum_fac (sboxes mE' ! k ! a)) ! j
                   = exp (- data (sigma_cumsum (sboxes ?mB ! k ! a)) ! j * [1] ! a)) \<and>
              sigma_star_fac (sboxes mE' ! k ! a) = sigma_star_fac (sboxes ?mB ! k ! a) \<and>
              sigma_star_cumsum_fac (sboxes mE' ! k ! a)
                = sigma_star_cumsum_fac (sboxes ?mB ! k ! a)"
    by blast
  from eq'[rule_format, of 0 0] have e2:
    "data (sigma_fac (sboxes mE' ! 0 ! 0)) ! 1 = 1"
    "data (sigma_cumsum_fac (sboxes mE' ! 0 ! 0)) ! 1 = 1"
    "data (sigma_star_fac (sboxes mE' ! 0 ! 0)) ! 1 = 1"
    unfolding msb0_doneB by (simp_all add: msb0_def axis0_def zeros2_def)
  from B s(3) e' e2 have 3: "\<exists>mB mE. MultiSigmaBox_ComputePMLFactorsB [1] 1 msb0 = Inr mB \<and> dt_B mB = 1 \<and>
      MultiSigmaBox_ComputePMLFactorsE [1] 1 mB = Inr mE \<and>
      data (sigma_fac (sboxes mE ! 0 ! 0)) ! 1 = 1 \<and>
      data (sigma_cumsum_fac (sboxes mE ! 0 ! 0)) ! 1 = 1 \<and>
      data (sigma_star_fac (sboxes mE ! 0 ! 0)) ! 1 = 1"
    by blast
  from b b1 e e1 3 show ?thesis by blast
qed

section \<open>Claims about the layer geometry\<close>



text \<open>
  Claim C8.  With the layer outside the domain (\<open>do_pml_in_domain = 0\<close>), an interior block
  whose length along an axis that is not periodic and has a layer on its low or its high
  side is at most \<open>ncell\<close> makes \<open>MakeBoxArray\<close> fail with the blocking-factor error: no
  block set is returned.
\<close>

theorem blocking_factor_rejected:
  assumes "do_pml_in_domain = 0" "grid_bx \<in> set grid_ba" "idim < length (Domain geom)"
    "\<not> isPeriodic geom ! idim" "do_pml_Lo ! idim \<noteq> 0 \<or> do_pml_Hi ! idim \<noteq> 0"
    "length_box grid_bx idim \<le> ncell"
  shows "MakeBoxArray geom grid_ba ncell do_pml_in_domain do_pml_Lo do_pml_Hi = Inl BlockingFactor"
proof -
  have "\<not> blocking_factor_ok geom ncell do_pml_Lo do_pml_Hi grid_bx"
    unfolding blocking_factor_ok_def list_all_iff using assms(3-6) by fastforce
  with assms(2) have "\<exists>g\<in>set grid_ba. \<not> blocking_factor_ok geom ncell do_pml_Lo do_pml_Hi g"
    by blast
  from MakeBoxArray_loop_rejects[OF assms(1) this]
  show ?thesis by (simp add: MakeBoxArray_def Let_def)
qed

theorem blocking_factor_rejected_witness:
  "MakeBoxArray \<lparr>Domain = [(0, 7)], isPeriodic = [False], CellSize = [1]\<rparr>
     [[(0, 3)], [(4, 7)]] 4 0 [1] [0] = Inl BlockingFactor"
  by (rule blocking_factor_rejected[where grid_bx = "[(0, 3)]" and idim = 0])
    (simp_all add: length_box_def smallEnd_def bigEnd_def)

section \<open>Claims about the exchange\<close>

text \<open>
  Claim C5.  With the layer outside the domain (\<open>do_pml_in_domain = 0\<close>), \<open>Exchange\<close>
  leaves the block set of the interior field as it was and changes no value of a valid
  cell of the interior field, in any component, and no value of a component other than 0,
  whatever \<open>ParallelCopy\<close> does.  With the copy of AMReX, whatever the order of its
  copies, and an interior field that has ghost cells, a ghost cell of the interior field
  receives the sum of the split components of the layer at the valid cell of the layer
  that covers it (the one written last, \<open>w\<close>, when there are several), and keeps its value
  when no valid cell of the layer covers it.  After a second exchange the valid cells of the interior field still
  hold their first values; in particular a constant stays this constant.
\<close>

theorem Exchange_keeps_interior_valid_cells:
  assumes "do_pml_in_domain = 0"
    and "Exchange pc uninit pml reg geom do_pml_in_domain = (pml1, reg1)"
    and "Exchange pc' uninit' pml1 reg1 geom do_pml_in_domain = (pml2, reg2)"
  shows "boxArray reg1 = boxArray reg \<and> nGrowVect reg1 = nGrowVect reg \<and> nComp reg1 = nComp reg \<and>
    (\<forall>k<length (boxArray reg). \<forall>q c. cell_in (boxArray reg ! k) q \<longrightarrow>
        (fabs reg1 ! k) q c = (fabs reg ! k) q c) \<and>
    (\<forall>k<length (boxArray reg). \<forall>q c. c \<noteq> 0 \<longrightarrow> (fabs reg1 ! k) q c = (fabs reg ! k) q c) \<and>
    (pc = ParallelCopy ord \<and> IntVect_max (nGrowVect reg) > 0 \<longrightarrow>
       (\<forall>k<length (boxArray reg). \<forall>q.
          cell_in (grow_vect (boxArray reg ! k) (nGrowVect reg)) q \<and> \<not> cell_in (boxArray reg ! k) q \<longrightarrow>
          (fabs reg1 ! k) q 0 =
            (let S = sources (boxArray pml) [] (periodicity geom) q;
                 w = last_written ord k q S;
                 q' = IntVect_minus q (snd w)
             in if S = [] then (fabs reg ! k) q 0
                else (fabs pml ! fst w) q' 0 + (fabs pml ! fst w) q' 1 +
                     (if nComp pml = 3 then (fabs pml ! fst w) q' 2 else 0)))) \<and>
    (\<forall>k<length (boxArray reg). \<forall>q c. cell_in (boxArray reg ! k) q \<longrightarrow>
        (fabs reg2 ! k) q c = (fabs reg ! k) q c) \<and>
    (\<forall>v. (\<forall>k<length (boxArray reg). \<forall>q. cell_in (boxArray reg ! k) q \<longrightarrow> (fabs reg ! k) q 0 = v) \<longrightarrow>
         (\<forall>k<length (boxArray reg). \<forall>q. cell_in (boxArray reg ! k) q \<longrightarrow> (fabs reg2 ! k) q 0 = v))"
proof -
  from assms(1,2) have r1: "reg1 = snd (Exchange pc uninit pml reg geom 0)" by simp
  from assms(1,3) have r2: "reg2 = snd (Exchange pc' uninit' pml1 reg1 geom 0)" by simp
  have ba: "boxArray reg1 = boxArray reg" "nGrowVect reg1 = nGrowVect reg" "nComp reg1 = nComp reg"
    unfolding r1 by (rule Exchange_reg_frame)+
  have v1: "(fabs reg1 ! k) q c = (fabs reg ! k) q c"
    if "k < length (boxArray reg)" "cell_in (boxArray reg ! k) q \<or> c \<noteq> 0" for k q c
    unfolding r1 using that by (rule Exchange_reg_frame(4))
  have v2: "(fabs reg2 ! k) q c = (fabs reg1 ! k) q c"
    if "k < length (boxArray reg)" "cell_in (boxArray reg ! k) q \<or> c \<noteq> 0" for k q c
    unfolding r2 using that by (intro Exchange_reg_frame(4)) (simp_all add: ba)
  have g: "(fabs reg1 ! k) q 0 =
            (let S = sources (boxArray pml) [] (periodicity geom) q;
                 w = last_written ord k q S;
                 q' = IntVect_minus q (snd w)
             in if S = [] then (fabs reg ! k) q 0
                else (fabs pml ! fst w) q' 0 + (fabs pml ! fst w) q' 1 +
                     (if nComp pml = 3 then (fabs pml ! fst w) q' 2 else 0))"
    if "pc = ParallelCopy ord" "IntVect_max (nGrowVect reg) > 0" "k < length (boxArray reg)"
      "cell_in (grow_vect (boxArray reg ! k) (nGrowVect reg)) q" "\<not> cell_in (boxArray reg ! k) q"
    for k q
    unfolding r1 that(1) by (rule Exchange_ghost[OF that(3,2,4,5)])
  show ?thesis
  proof (intro conjI allI impI)
  qed (use ba v1 v2 g in \<open>simp_all\<close>)
qed

theorem Exchange_keeps_interior_valid_cells_witness:
  "(fabs (snd (Exchange (ParallelCopy (\<lambda>k q s. 0)) (\<lambda>q c. 0) layer_out interior8 line8 0)) ! 0) [7] 0 = 5 \<and>
   (fabs (snd (Exchange (ParallelCopy (\<lambda>k q s. 0)) (\<lambda>q c. 0) layer_out interior8 line8 0)) ! 0) [8] 0 = 6 \<and>
   (fabs (snd (Exchange (ParallelCopy (\<lambda>k q s. 0)) (\<lambda>q c. 0) layer_out interior8 line8 0)) ! 0) [- 1] 0 = 5 \<and>
   (fabs (snd (Exchange (ParallelCopy (\<lambda>k q s. 0)) (\<lambda>q c. 0)
      (fst (Exchange (ParallelCopy (\<lambda>k q s. 0)) (\<lambda>q c. 0) layer_out interior8 line8 0))
      (snd (Exchange (ParallelCopy (\<lambda>k q s. 0)) (\<lambda>q c. 0) layer_out interior8 line8 0)) line8 0)) ! 0) [7] 0 = 5"
proof -
  note T = Exchange_keeps_interior_valid_cells[OF refl surjective_pairing surjective_pairing,
      where pc = "ParallelCopy (\<lambda>k q s. 0)" and ord = "\<lambda>k q s. 0" and uninit = "\<lambda>q c. 0"
        and pml = layer_out and reg = interior8 and geom = line8
        and pc' = "ParallelCopy (\<lambda>k q s. 0)" and uninit' = "\<lambda>q c. 0"]
  note valid = T[THEN conjunct2, THEN conjunct2, THEN conjunct2, THEN conjunct1, rule_format,
      of 0 "[7]" 0]
  note ghost = T[THEN conjunct2, THEN conjunct2, THEN conjunct2, THEN conjunct2, THEN conjunct2,
      THEN conjunct1, rule_format]
  note again = T[THEN conjunct2, THEN conjunct2, THEN conjunct2, THEN conjunct2, THEN conjunct2,
      THEN conjunct2, THEN conjunct1, rule_format, of 0 "[7]" 0]
  have 1: "(fabs (snd (Exchange (ParallelCopy (\<lambda>k q s. 0)) (\<lambda>q c. 0) layer_out interior8 line8 0)) ! 0) [7] 0 = 5"
    using valid by (simp add: interior8_def cell_in_def)
  have 2: "(fabs (snd (Exchange (ParallelCopy (\<lambda>k q s. 0)) (\<lambda>q c. 0) layer_out interior8 line8 0)) ! 0) [8] 0 = 6"
    using ghost[of 0 "[8]"]
    by (simp add: interior8_def layer_out_def line8_def cell_in_def IntVect_max_def sources_def
        shiftIntVect_def periodicity_def IntVect_minus_def last_written_def Let_def)
  have 3: "(fabs (snd (Exchange (ParallelCopy (\<lambda>k q s. 0)) (\<lambda>q c. 0) layer_out interior8 line8 0)) ! 0) [- 1] 0 = 5"
    using ghost[of 0 "[- 1]"]
    by (simp add: interior8_def layer_out_def line8_def cell_in_def IntVect_max_def sources_def
        shiftIntVect_def periodicity_def IntVect_minus_def last_written_def Let_def)
  have 4: "(fabs (snd (Exchange (ParallelCopy (\<lambda>k q s. 0)) (\<lambda>q c. 0)
      (fst (Exchange (ParallelCopy (\<lambda>k q s. 0)) (\<lambda>q c. 0) layer_out interior8 line8 0))
      (snd (Exchange (ParallelCopy (\<lambda>k q s. 0)) (\<lambda>q c. 0) layer_out interior8 line8 0)) line8 0)) ! 0) [7] 0 = 5"
    using again by (simp add: interior8_def cell_in_def)
  from 1 2 3 4 show ?thesis by simp
qed

text \<open>
  The second half of claim C6, as stated, fails at a node that two blocks of the layer
  share.  On a line of 12 cells, with the layer in the domain, the nodal layer field has
  the blocks \<open>[8, 10]\<close> and \<open>[10, 12]\<close>, which hold 1 and 100, and the interior field
  the block \<open>[0, 12]\<close>.  The temporary field takes at the node 10 the value of one of the
  two blocks, and the merge writes it to both: when the copy from the first block is
  written last, the valid node 10 of the second block goes from 100 to 1; when the copy
  from the second block is written last, the valid node 10 of the first block goes from
  1 to 100.
\<close>

theorem Exchange_layer_shared_node_counterexample:
  "cell_in (boxArray layer_nodes ! 0) [10] \<and> cell_in (boxArray layer_nodes ! 1) [10] \<and>
   (fabs layer_nodes ! 0) [10] 0 = 1 \<and> (fabs layer_nodes ! 1) [10] 0 = 100 \<and>
   (fabs (fst (Exchange (ParallelCopy (\<lambda>k q s. 0)) (\<lambda>q c. 0) layer_nodes nodes12 line12 1)) ! 1)
      [10] 0 = 1 \<and>
   (fabs (fst (Exchange (ParallelCopy (\<lambda>k q s. 1)) (\<lambda>q c. 0) layer_nodes nodes12 line12 1)) ! 0)
      [10] 0 = 100"
proof -
  note ev = layer_nodes_def nodes12_def line12_def cell_in_def sources_def shiftIntVect_def
    periodicity_def IntVect_minus_def last_written_def
  have g: "0 < length (boxArray layer_nodes)" "1 < length (boxArray layer_nodes)"
    "cell_in (grow_vect (boxArray layer_nodes ! 0) (nGrowVect layer_nodes)) [10]"
    "cell_in (grow_vect (boxArray layer_nodes ! 1) (nGrowVect layer_nodes)) [10]"
    "0 < nComp layer_nodes"
    by (simp_all add: ev)
  have 1: "(fabs (fst (Exchange (ParallelCopy (\<lambda>k q s. 0)) (\<lambda>q c. 0) layer_nodes nodes12 line12 1)) ! 1)
      [10] 0 = 1"
    unfolding Exchange_layer[OF g(2) g(4) g(5)] by (simp add: ev Let_def)
  have 2: "(fabs (fst (Exchange (ParallelCopy (\<lambda>k q s. 1)) (\<lambda>q c. 0) layer_nodes nodes12 line12 1)) ! 0)
      [10] 0 = 100"
    unfolding Exchange_layer[OF g(1) g(3) g(5)] by (simp add: ev Let_def)
  from 1 2 show ?thesis by (simp add: ev)
qed

text \<open>
  Claim C6, amended.  \<open>Exchange\<close> with the copy of AMReX, whatever the order of its
  copies, for a cell \<open>q\<close> of block \<open>k\<close> of the layer field (valid or ghost) and a
  component \<open>c\<close> of it.  \<open>S\<close> are the valid cells of the interior field that cover \<open>q\<close>,
  \<open>w\<close> the one written last, \<open>q'\<close> its cell, \<open>S'\<close> the valid cells of the layer that
  cover \<open>q'\<close> and \<open>w'\<close> the one written last to the temporary field.

  A cell that no valid cell of the interior field covers keeps its value.  With the layer
  outside the domain, or when no valid cell of the layer covers \<open>q'\<close>, the cell receives
  the value of the interior field in component 0 and zero in every other component (with
  the layer outside the domain this value of the interior field is the one before the
  call).  With the layer in the domain and \<open>q'\<close> covered by valid cells of the layer, the
  temporary field holds there the values of the layer at \<open>w'\<close>, and these are what the
  merge writes.  Hence, with the layer in the domain, the cell keeps its value when every
  valid cell of the layer that the temporary field can take for it holds this value; in
  a geometry without periodic axis a valid cell of the layer keeps its value when every
  block of the layer whose valid box contains the cell holds the same value there, as is
  the case when no other block contains it.
\<close>

theorem Exchange_layer_receives:
  assumes "Exchange (ParallelCopy ord) uninit pml reg geom do_pml_in_domain = (pml', reg')"
    and "k < length (boxArray pml)"
    and "cell_in (grow_vect (boxArray pml ! k) (nGrowVect pml)) q"
    and "c < nComp pml"
  shows "(let S = sources (boxArray reg) [] (periodicity geom) q;
              w = last_written ord k q S;
              q' = IntVect_minus q (snd w);
              S' = sources (boxArray pml) [] (periodicity geom) q';
              w' = last_written ord (fst w) q' S'
          in (S = [] \<longrightarrow> (fabs pml' ! k) q c = (fabs pml ! k) q c) \<and>
             (S \<noteq> [] \<longrightarrow>
                fst w < length (boxArray reg) \<and> cell_in (boxArray reg ! fst w) q' \<and>
                (do_pml_in_domain = 0 \<or> S' = [] \<longrightarrow>
                   (fabs pml' ! k) q c = (if c = 0 then (fabs reg' ! fst w) q' 0 else 0)) \<and>
                (do_pml_in_domain = 0 \<longrightarrow> (fabs reg' ! fst w) q' 0 = (fabs reg ! fst w) q' 0) \<and>
                (do_pml_in_domain \<noteq> 0 \<and> S' \<noteq> [] \<longrightarrow>
                   fst w' < length (boxArray pml) \<and>
                   cell_in (boxArray pml ! fst w') (IntVect_minus q' (snd w')) \<and>
                   (fabs pml' ! k) q c = (fabs pml ! fst w') (IntVect_minus q' (snd w')) c))) \<and>
    (do_pml_in_domain \<noteq> 0 \<and>
     (\<forall>(i, pit)\<in>set (sources (boxArray reg) [] (periodicity geom) q).
        sources (boxArray pml) [] (periodicity geom) (IntVect_minus q pit) \<noteq> [] \<and>
        (\<forall>(k', pit')\<in>set (sources (boxArray pml) [] (periodicity geom) (IntVect_minus q pit)).
           (fabs pml ! k') (IntVect_minus (IntVect_minus q pit) pit') c = (fabs pml ! k) q c)) \<longrightarrow>
       (fabs pml' ! k) q c = (fabs pml ! k) q c) \<and>
    (do_pml_in_domain \<noteq> 0 \<and> cell_in (boxArray pml ! k) q \<and>
     periodicity geom = replicate (length q) 0 \<and>
     (\<forall>k'<length (boxArray pml). cell_in (boxArray pml ! k') q \<longrightarrow>
        (fabs pml ! k') q c = (fabs pml ! k) q c) \<longrightarrow>
       (fabs pml' ! k) q c = (fabs pml ! k) q c) \<and>
    (do_pml_in_domain \<noteq> 0 \<and> cell_in (boxArray pml ! k) q \<and>
     periodicity geom = replicate (length q) 0 \<and>
     (\<forall>j<length (boxArray pml). j \<noteq> k \<longrightarrow> \<not> intersects (boxArray pml ! j) (boxArray pml ! k)) \<longrightarrow>
       (fabs pml' ! k) q c = (fabs pml ! k) q c)"
proof -
  let ?E = "Exchange (ParallelCopy ord) uninit pml reg geom do_pml_in_domain"
  let ?S = "sources (boxArray reg) [] (periodicity geom) q"
  let ?w = "last_written ord k q ?S"
  let ?q' = "IntVect_minus q (snd ?w)"
  let ?S' = "sources (boxArray pml) [] (periodicity geom) ?q'"
  let ?w' = "last_written ord (fst ?w) ?q' ?S'"
  from assms(1) have p: "pml' = fst ?E" and r: "reg' = snd ?E" by simp_all
  note L = Exchange_layer[OF assms(2,3,4), of ord uninit reg geom do_pml_in_domain,
      folded p r, unfolded Let_def]
  have a: "(fabs pml' ! k) q c = (fabs pml ! k) q c" if "?S = []"
    using L that by simp
  have b: "fst ?w < length (boxArray reg) \<and> cell_in (boxArray reg ! fst ?w) ?q' \<and>
       (do_pml_in_domain = 0 \<or> ?S' = [] \<longrightarrow>
          (fabs pml' ! k) q c = (if c = 0 then (fabs reg' ! fst ?w) ?q' 0 else 0)) \<and>
       (do_pml_in_domain = 0 \<longrightarrow> (fabs reg' ! fst ?w) ?q' 0 = (fabs reg ! fst ?w) ?q' 0) \<and>
       (do_pml_in_domain \<noteq> 0 \<and> ?S' \<noteq> [] \<longrightarrow>
          fst ?w' < length (boxArray pml) \<and>
          cell_in (boxArray pml ! fst ?w') (IntVect_minus ?q' (snd ?w')) \<and>
          (fabs pml' ! k) q c = (fabs pml ! fst ?w') (IntVect_minus ?q' (snd ?w')) c)"
    if s: "?S \<noteq> []"
  proof -
    note W = last_written_source[OF s, of ord k]
    from W have i: "fst ?w < length (boxArray reg)" and qi: "cell_in (boxArray reg ! fst ?w) ?q'"
      by simp_all
    have fr: "(fabs reg' ! fst ?w) ?q' 0 = (fabs reg ! fst ?w) ?q' 0" if "do_pml_in_domain = 0"
      unfolding r that using i qi by (intro Exchange_reg_frame(4)) simp_all
    have w': "fst ?w' < length (boxArray pml) \<and>
        cell_in (boxArray pml ! fst ?w') (IntVect_minus ?q' (snd ?w'))" if "?S' \<noteq> []"
      using last_written_source(1,3)[OF that, of ord "fst ?w"] by simp
    from L s i qi fr w' show ?thesis by auto
  qed
  have g: "(fabs pml' ! k) q c = (fabs pml ! k) q c"
    if "do_pml_in_domain \<noteq> 0"
      "\<forall>(i, pit)\<in>set (sources (boxArray reg) [] (periodicity geom) q).
        sources (boxArray pml) [] (periodicity geom) (IntVect_minus q pit) \<noteq> [] \<and>
        (\<forall>(k', pit')\<in>set (sources (boxArray pml) [] (periodicity geom) (IntVect_minus q pit)).
           (fabs pml ! k') (IntVect_minus (IntVect_minus q pit) pit') c = (fabs pml ! k) q c)"
    unfolding p by (rule Exchange_layer_agree[OF assms(2,3,4) that])
  have c: "(fabs pml' ! k) q c = (fabs pml ! k) q c"
    if "do_pml_in_domain \<noteq> 0" "cell_in (boxArray pml ! k) q"
      "periodicity geom = replicate (length q) 0"
      "\<forall>k'<length (boxArray pml). cell_in (boxArray pml ! k') q \<longrightarrow>
        (fabs pml ! k') q c = (fabs pml ! k) q c"
    unfolding p by (rule Exchange_layer_keeps[OF assms(2) that(2) assms(3,4) that(1,3,4)])
  have d: "(fabs pml' ! k) q c = (fabs pml ! k) q c"
    if "do_pml_in_domain \<noteq> 0" "cell_in (boxArray pml ! k) q"
      "periodicity geom = replicate (length q) 0"
      "\<forall>j<length (boxArray pml). j \<noteq> k \<longrightarrow> \<not> intersects (boxArray pml ! j) (boxArray pml ! k)"
  proof (rule c[OF that(1,2,3)], intro allI impI)
    fix k' assume k': "k' < length (boxArray pml)" and ci: "cell_in (boxArray pml ! k') q"
    from ci that(2) have "intersects (boxArray pml ! k') (boxArray pml ! k)"
      by (rule cell_in_intersects)
    with that(4) k' have "k' = k" by blast
    then show "(fabs pml ! k') q c = (fabs pml ! k) q c" by simp
  qed
  show ?thesis unfolding Let_def using a b g c d by blast
qed

theorem Exchange_layer_receives_witness:
  "(fabs (fst (Exchange (ParallelCopy (\<lambda>k q s. 0)) (\<lambda>q c. 0) layer_out interior8 line8 0)) ! 0) [7] 0 = 5 \<and>
   (fabs (fst (Exchange (ParallelCopy (\<lambda>k q s. 0)) (\<lambda>q c. 0) layer_out interior8 line8 0)) ! 0) [7] 1 = 0 \<and>
   (fabs (fst (Exchange (ParallelCopy (\<lambda>k q s. 0)) (\<lambda>q c. 0) layer_out interior8 line8 0)) ! 0) [7] 2 = 0 \<and>
   (fabs (fst (Exchange (ParallelCopy (\<lambda>k q s. 0)) (\<lambda>q c. 0) layer_out interior8 line8 0)) ! 0) [9] 1 = 2 \<and>
   (fabs (fst (Exchange (ParallelCopy (\<lambda>k q s. 1)) (\<lambda>q c. 0) layer_nodes_same nodes12 line12 1)) ! 0) [7] 1 = 0 \<and>
   (fabs (fst (Exchange (ParallelCopy (\<lambda>k q s. 1)) (\<lambda>q c. 0) layer_nodes_same nodes12 line12 1)) ! 0) [10] 0 = 10 \<and>
   (fabs (fst (Exchange (ParallelCopy (\<lambda>k q s. 1)) (\<lambda>q c. 0) layer_nodes_same nodes12 line12 1)) ! 1) [10] 1 = 11 \<and>
   (fabs (fst (Exchange (ParallelCopy (\<lambda>k q s. 1)) (\<lambda>q c. 0) layer_nodes_same nodes12 line12 1)) ! 1) [10] 0 = 10 \<and>
   (fabs (fst (Exchange (ParallelCopy (\<lambda>k q s. 1)) (\<lambda>q c. 0) layer_in interior8 line8 1)) ! 0) [6] 2 = 3"
proof -
  note ev = interior8_def layer_out_def layer_in_def line8_def layer_nodes_same_def nodes12_def
    line12_def cell_in_def sources_def shiftIntVect_def periodicity_def IntVect_minus_def
    last_written_def
  note O = Exchange_layer_receives[OF surjective_pairing, where ord = "\<lambda>k q s. 0"
      and uninit = "\<lambda>q c. 0" and pml = layer_out and reg = interior8 and geom = line8
      and do_pml_in_domain = 0 and k = 0, unfolded Let_def]
  note N = Exchange_layer_receives[OF surjective_pairing, where ord = "\<lambda>k q s. 1"
      and uninit = "\<lambda>q c. 0" and pml = layer_nodes_same and reg = nodes12 and geom = line12
      and do_pml_in_domain = 1, unfolded Let_def]
  note I = Exchange_layer_receives[OF surjective_pairing, where ord = "\<lambda>k q s. 1"
      and uninit = "\<lambda>q c. 0" and pml = layer_in and reg = interior8 and geom = line8
      and do_pml_in_domain = 1 and k = 0, unfolded Let_def]
  have g: "0 < length (boxArray layer_out)" "0 < length (boxArray layer_in)"
    "0 < length (boxArray layer_nodes_same)" "1 < length (boxArray layer_nodes_same)"
    "cell_in (grow_vect (boxArray layer_out ! 0) (nGrowVect layer_out)) [7]"
    "cell_in (grow_vect (boxArray layer_out ! 0) (nGrowVect layer_out)) [9]"
    "cell_in (grow_vect (boxArray layer_in ! 0) (nGrowVect layer_in)) [6]"
    "cell_in (grow_vect (boxArray layer_nodes_same ! 0) (nGrowVect layer_nodes_same)) [7]"
    "cell_in (grow_vect (boxArray layer_nodes_same ! 0) (nGrowVect layer_nodes_same)) [10]"
    "cell_in (grow_vect (boxArray layer_nodes_same ! 1) (nGrowVect layer_nodes_same)) [10]"
    and n: "nComp layer_out = 3" "nComp layer_in = 3" "nComp layer_nodes_same = 2"
    by (simp_all add: ev)
  have 1: "(fabs (fst (Exchange (ParallelCopy (\<lambda>k q s. 0)) (\<lambda>q c. 0) layer_out interior8 line8 0)) ! 0) [7] 0 = 5"
    using O[OF g(1) g(5), of 0, THEN conjunct1] by (simp add: n) (simp add: ev)
  have 2: "(fabs (fst (Exchange (ParallelCopy (\<lambda>k q s. 0)) (\<lambda>q c. 0) layer_out interior8 line8 0)) ! 0) [7] 1 = 0"
    using O[OF g(1) g(5), of 1, THEN conjunct1] by (simp add: n) (simp add: ev)
  have 3: "(fabs (fst (Exchange (ParallelCopy (\<lambda>k q s. 0)) (\<lambda>q c. 0) layer_out interior8 line8 0)) ! 0) [7] 2 = 0"
    using O[OF g(1) g(5), of 2, THEN conjunct1] by (simp add: n) (simp add: ev)
  have 4: "(fabs (fst (Exchange (ParallelCopy (\<lambda>k q s. 0)) (\<lambda>q c. 0) layer_out interior8 line8 0)) ! 0) [9] 1 = 2"
    using O[OF g(1) g(6), of 1, THEN conjunct1] by (simp add: n) (simp add: ev)
  have 5: "(fabs (fst (Exchange (ParallelCopy (\<lambda>k q s. 1)) (\<lambda>q c. 0) layer_nodes_same nodes12 line12 1)) ! 0) [7] 1 = 0"
    using N[OF g(3) g(8), of 1, THEN conjunct1] by (simp add: n) (simp add: ev)
  have 6: "(fabs (fst (Exchange (ParallelCopy (\<lambda>k q s. 1)) (\<lambda>q c. 0) layer_nodes_same nodes12 line12 1)) ! 0) [10] 0 = 10"
    using N[OF g(3) g(9), of 0, THEN conjunct1] by (simp add: n) (simp add: ev)
  have 7: "(fabs (fst (Exchange (ParallelCopy (\<lambda>k q s. 1)) (\<lambda>q c. 0) layer_nodes_same nodes12 line12 1)) ! 1) [10] 1 = 11"
    using N[OF g(4) g(10), of 1, THEN conjunct2, THEN conjunct2, THEN conjunct1]
    by (simp add: n) (simp add: ev less_Suc_eq)
  have 8: "(fabs (fst (Exchange (ParallelCopy (\<lambda>k q s. 1)) (\<lambda>q c. 0) layer_in interior8 line8 1)) ! 0) [6] 2 = 3"
    using I[OF g(2) g(7), of 2, THEN conjunct2, THEN conjunct2, THEN conjunct2]
    by (simp add: n) (simp add: ev intersects_def)
  have 9: "(fabs (fst (Exchange (ParallelCopy (\<lambda>k q s. 1)) (\<lambda>q c. 0) layer_nodes_same nodes12 line12 1)) ! 1) [10] 0 = 10"
    using N[OF g(4) g(10), of 0, THEN conjunct2, THEN conjunct1]
    by (simp add: n) (simp add: ev)
  from 1 2 3 4 5 6 7 8 9 show ?thesis by simp
qed

section \<open>Claims about the layer object\<close>

text \<open>
  Claim C9.  When the construction of the layer's blocks yields no block, the constructor
  returns an object (no error) with \<open>m_ok\<close> false and every field pointer null, and on this
  object \<open>ExchangeB\<close>, \<open>ExchangeE\<close>, \<open>ExchangeF\<close> and \<open>CopyJtoPMLs\<close> return the layer
  object and the interior fields as they were, for either patch type.  The state can be
  told apart: a constructor that returns with a block set that is not empty sets \<open>m_ok\<close>
  and allocates the fields of the fine patch.  On any layer object, an exchange of a group
  whose first pointer is null for the patch type asked for changes neither the layer
  object nor the interior fields.
\<close>

theorem empty_layer_disabled:
  "(fine_ba geom grid_ba ncell do_pml_in_domain do_pml_Lo do_pml_Hi = Inr [] \<longrightarrow>
      (\<exists>pml. PML_new warpx new_sigba uninit lev grid_ba geom cgeom ncell delta ref_ratio
                nox_fft noy_fft noz_fft do_nodal do_dive_cleaning do_moving_window
                do_pml_in_domain do_pml_Lo do_pml_Hi = Inr pml \<and>
         \<not> m_ok pml \<and>
         pml_E_fp pml = [None, None, None] \<and> pml_B_fp pml = [None, None, None] \<and>
         pml_j_fp pml = [None, None, None] \<and> pml_E_cp pml = [None, None, None] \<and>
         pml_B_cp pml = [None, None, None] \<and> pml_j_cp pml = [None, None, None] \<and>
         pml_F_fp pml = None \<and> pml_F_cp pml = None \<and>
         pml_eps_fp pml = None \<and> pml_mu_fp pml = None \<and> pml_sigma_fp pml = None \<and>
         pml_eps_cp pml = None \<and> pml_mu_cp pml = None \<and> pml_sigma_cp pml = None \<and>
         sigba_fp pml = None \<and> sigba_cp pml = None \<and>
         (\<forall>pc u pt Fs F d.
            ExchangeB pc u pt Fs d pml = Inr (pml, Fs) \<and>
            ExchangeE pc u pt Fs d pml = Inr (pml, Fs) \<and>
            CopyJtoPMLs pc pt Fs pml = Inr pml \<and>
            ExchangeF pc u pt F d pml = Inr (pml, F)))) \<and>
   (\<forall>ba pml.
      fine_ba geom grid_ba ncell do_pml_in_domain do_pml_Lo do_pml_Hi = Inr ba \<and> ba \<noteq> [] \<and>
      PML_new warpx new_sigba uninit lev grid_ba geom cgeom ncell delta ref_ratio
        nox_fft noy_fft noz_fft do_nodal do_dive_cleaning do_moving_window
        do_pml_in_domain do_pml_Lo do_pml_Hi = Inr pml \<longrightarrow>
      m_ok pml \<and> pml_E_fp pml ! 0 \<noteq> None \<and> pml_B_fp pml ! 0 \<noteq> None \<and> pml_j_fp pml ! 0 \<noteq> None) \<and>
   (patch_type = fine \<and> pml_B_fp P ! 0 = None \<or> patch_type = coarse \<and> pml_B_cp P ! 0 = None \<longrightarrow>
      ExchangeB pc' u' patch_type Fs' d' P = Inr (P, Fs')) \<and>
   (patch_type = fine \<and> pml_E_fp P ! 0 = None \<or> patch_type = coarse \<and> pml_E_cp P ! 0 = None \<longrightarrow>
      ExchangeE pc' u' patch_type Fs' d' P = Inr (P, Fs')) \<and>
   (patch_type = fine \<and> pml_j_fp P ! 0 = None \<or> patch_type = coarse \<and> pml_j_cp P ! 0 = None \<longrightarrow>
      CopyJtoPMLs pc' patch_type Fs' P = Inr P) \<and>
   (patch_type = fine \<and> pml_F_fp P = None \<or> patch_type = coarse \<and> pml_F_cp P = None \<longrightarrow>
      ExchangeF pc' u' patch_type F' d' P = Inr (P, F'))"
proof (intro conjI impI allI)
  assume e: "fine_ba geom grid_ba ncell do_pml_in_domain do_pml_Lo do_pml_Hi = Inr []"
  let ?pml = "(PML_members geom cgeom)\<lparr>m_ok := False\<rparr>"
  have noop: "ExchangeB pc u pt Fs d ?pml = Inr (?pml, Fs) \<and>
      ExchangeE pc u pt Fs d ?pml = Inr (?pml, Fs) \<and>
      CopyJtoPMLs pc pt Fs ?pml = Inr ?pml \<and>
      ExchangeF pc u pt F d ?pml = Inr (?pml, F)" for pc u pt Fs F d
    using Exchange_unallocated[of pt ?pml] by (cases pt) simp_all
  show "\<exists>pml. PML_new warpx new_sigba uninit lev grid_ba geom cgeom ncell delta ref_ratio
                nox_fft noy_fft noz_fft do_nodal do_dive_cleaning do_moving_window
                do_pml_in_domain do_pml_Lo do_pml_Hi = Inr pml \<and>
         \<not> m_ok pml \<and>
         pml_E_fp pml = [None, None, None] \<and> pml_B_fp pml = [None, None, None] \<and>
         pml_j_fp pml = [None, None, None] \<and> pml_E_cp pml = [None, None, None] \<and>
         pml_B_cp pml = [None, None, None] \<and> pml_j_cp pml = [None, None, None] \<and>
         pml_F_fp pml = None \<and> pml_F_cp pml = None \<and>
         pml_eps_fp pml = None \<and> pml_mu_fp pml = None \<and> pml_sigma_fp pml = None \<and>
         pml_eps_cp pml = None \<and> pml_mu_cp pml = None \<and> pml_sigma_cp pml = None \<and>
         sigba_fp pml = None \<and> sigba_cp pml = None \<and>
         (\<forall>pc u pt Fs F d.
            ExchangeB pc u pt Fs d pml = Inr (pml, Fs) \<and>
            ExchangeE pc u pt Fs d pml = Inr (pml, Fs) \<and>
            CopyJtoPMLs pc pt Fs pml = Inr pml \<and>
            ExchangeF pc u pt F d pml = Inr (pml, F))"
    by (rule exI[of _ ?pml]) (simp add: PML_new_empty[OF e] noop)
next
  fix ba pml
  assume a: "fine_ba geom grid_ba ncell do_pml_in_domain do_pml_Lo do_pml_Hi = Inr ba \<and> ba \<noteq> [] \<and>
      PML_new warpx new_sigba uninit lev grid_ba geom cgeom ncell delta ref_ratio
        nox_fft noy_fft noz_fft do_nodal do_dive_cleaning do_moving_window
        do_pml_in_domain do_pml_Lo do_pml_Hi = Inr pml"
  have "m_ok pml \<and> pml_E_fp pml ! 0 \<noteq> None \<and> pml_B_fp pml ! 0 \<noteq> None \<and> pml_j_fp pml ! 0 \<noteq> None"
    by (rule PML_new_nonempty[OF a[THEN conjunct1] a[THEN conjunct2, THEN conjunct1]
          a[THEN conjunct2, THEN conjunct2]])
  then show "m_ok pml" "pml_E_fp pml ! 0 \<noteq> None" "pml_B_fp pml ! 0 \<noteq> None" "pml_j_fp pml ! 0 \<noteq> None"
    by simp_all
qed (simp_all add: Exchange_unallocated)

theorem empty_layer_disabled_witness:
  "fine_ba periodic8 [[(0, 7), (0, 7)]] 2 0 [1, 1] [1, 1] = Inr [] \<and>
   (\<exists>pml. PML_new warpx0 (\<lambda>ba grid dx ncell delta. msb0) (\<lambda>p c. 0) 0 [[(0, 7), (0, 7)]]
             periodic8 None 2 2 [1, 1] 2 2 2 False 0 0 0 [1, 1] [1, 1] = Inr pml \<and>
      \<not> m_ok pml \<and> pml_B_fp pml = [None, None, None] \<and> sigba_fp pml = None \<and>
      ExchangeB (ParallelCopy (\<lambda>k q s. 0)) (\<lambda>p c. 0) fine [None, None, None] 0 pml = Inr (pml, [None, None, None])) \<and>
   (\<exists>pml. PML_new warpx0 (\<lambda>ba grid dx ncell delta. msb0) (\<lambda>p c. 0) 0 [[(0, 7), (0, 7)]]
             square8 None 2 2 [1, 1] 2 2 2 False 0 0 0 [1, 1] [1, 1] = Inr pml \<and> m_ok pml) \<and>
   ExchangeF (ParallelCopy (\<lambda>k q s. 0)) (\<lambda>p c. 0) coarse None 0 (PML_members square8 None) =
     Inr (PML_members square8 None, None)"
proof -
  note T = empty_layer_disabled[where geom = periodic8 and grid_ba = "[[(0, 7), (0, 7)]]"
      and ncell = 2 and do_pml_in_domain = 0 and do_pml_Lo = "[1, 1]" and do_pml_Hi = "[1, 1]"
      and warpx = warpx0 and new_sigba = "\<lambda>ba grid dx ncell delta. msb0" and uninit = "\<lambda>p c. 0"
      and lev = 0 and cgeom = None and delta = 2 and ref_ratio = "[1, 1]" and nox_fft = 2
      and noy_fft = 2 and noz_fft = 2 and do_nodal = False and do_dive_cleaning = 0
      and do_moving_window = 0]
  note S = empty_layer_disabled[where geom = square8 and grid_ba = "[[(0, 7), (0, 7)]]"
      and ncell = 2 and do_pml_in_domain = 0 and do_pml_Lo = "[1, 1]" and do_pml_Hi = "[1, 1]"
      and warpx = warpx0 and new_sigba = "\<lambda>ba grid dx ncell delta. msb0" and uninit = "\<lambda>p c. 0"
      and lev = 0 and cgeom = None and delta = 2 and ref_ratio = "[1, 1]" and nox_fft = 2
      and noy_fft = 2 and noz_fft = 2 and do_nodal = False and do_dive_cleaning = 0
      and do_moving_window = 0 and patch_type = coarse and P = "PML_members square8 None"
      and pc' = "ParallelCopy (\<lambda>k q s. 0)" and u' = "\<lambda>p c. 0" and F' = None and d' = 0]
  from T[THEN conjunct1, rule_format, OF fine_ba_periodic8]
  have 1: "\<exists>pml. PML_new warpx0 (\<lambda>ba grid dx ncell delta. msb0) (\<lambda>p c. 0) 0 [[(0, 7), (0, 7)]]
             periodic8 None 2 2 [1, 1] 2 2 2 False 0 0 0 [1, 1] [1, 1] = Inr pml \<and>
      \<not> m_ok pml \<and> pml_B_fp pml = [None, None, None] \<and> sigba_fp pml = None \<and>
      ExchangeB (ParallelCopy (\<lambda>k q s. 0)) (\<lambda>p c. 0) fine [None, None, None] 0 pml = Inr (pml, [None, None, None])"
    by blast
  have "\<exists>pml. PML_new warpx0 (\<lambda>ba grid dx ncell delta. msb0) (\<lambda>p c. 0) 0 [[(0, 7), (0, 7)]]
             square8 None 2 2 [1, 1] 2 2 2 False 0 0 0 [1, 1] [1, 1] = Inr pml"
    by (simp add: PML_new_def fine_ba_square8 Let_def warpx0_def split: prod.splits)
  with S[THEN conjunct2, THEN conjunct1] fine_ba_square8
  have 2: "\<exists>pml. PML_new warpx0 (\<lambda>ba grid dx ncell delta. msb0) (\<lambda>p c. 0) 0 [[(0, 7), (0, 7)]]
             square8 None 2 2 [1, 1] 2 2 2 False 0 0 0 [1, 1] [1, 1] = Inr pml \<and> m_ok pml"
    by blast
  from S have 3: "ExchangeF (ParallelCopy (\<lambda>k q s. 0)) (\<lambda>p c. 0) coarse None 0 (PML_members square8 None) =
     Inr (PML_members square8 None, None)"
    by simp
  from 1 2 3 fine_ba_periodic8 show ?thesis by blast
qed

text \<open>
  Claim C10 does not hold of the code.  The coarse patch tests the selector of the
  conductivity, \<open>m_sigma_s\<close>, against \<open>parse_mu_function\<close> where the fine patch tests
  the selector of the permeability, \<open>m_mu_s\<close>.  With \<open>m_mu_s = "parse_mu_function"\<close> and
  \<open>m_sigma_s = "constant"\<close> the fine patch initialises the permeability from the parsed
  expression, and the coarse patch leaves it as allocated.  In general the coarse patch
  takes the parsed expression exactly when \<open>m_mu_s\<close> is not \<open>constant\<close> and \<open>m_sigma_s\<close>
  is \<open>parse_mu_function\<close>.
\<close>

theorem coarse_mu_selector:
  "m_mu_s props0 = ''parse_mu_function'' \<and> m_sigma_s props0 = ''constant'' \<and>
   mu_fp_init props0 = Parsed ''1 + x'' \<and> mu_cp_init props0 = Untouched \<and>
   macro_field (\<lambda>p c. 0) warpx0 0 (mu_cp_init props0) [[(0, 7), (0, 7)]] [1, 1] =
     Some (MultiFab_new (\<lambda>p c. 0) [[(0, 7), (0, 7)]] 1 [1, 1]) \<and>
   (\<forall>mp. (mu_cp_init mp = Parsed (m_mu_parser mp)) =
           (m_mu_s mp \<noteq> ''constant'' \<and> m_sigma_s mp = ''parse_mu_function''))"
  by (simp add: mu_fp_init_def mu_cp_init_def props0_def macro_field_def warpx0_def
      apply_MacroInit_def)

end
